theory Spec2Isabelle
  imports Complex_Main "HOL-Library.Log_Nat"
begin

section \<open>JavaScript numbers\<close>

text \<open>
  The token generators of \<^verbatim>\<open>src/knowledge/design-tokens.ts\<close> compute with the
  JavaScript type \<^verbatim>\<open>number\<close>, that is IEEE 754 binary64.  A finite number is
  modelled by the rational it denotes, \<open>Fin q\<close>; the two zeros are identified
  (no function below divides by a computed value, and every conversion to a
  string prints both zeros alike).  Each arithmetic operation computes the
  exact rational result and rounds it to the nearest binary64 value, ties to
  even, as the language requires.
\<close>

datatype number = NaN | PInf | NInf | Fin rat

text \<open>\<open>expo x\<close> is the binary exponent of \<open>x \<noteq> 0\<close>: \<open>2 powi expo x \<le> \<bar>x\<bar> < 2 powi (expo x + 1)\<close>.\<close>

definition expo :: "rat \<Rightarrow> int" where
  "expo x = (if 1 \<le> \<bar>x\<bar> then bitlen \<lfloor>\<bar>x\<bar>\<rfloor> - 1
             else let d = 1 - bitlen \<lfloor>1 / \<bar>x\<bar>\<rfloor>
                  in if 2 powi d \<le> \<bar>x\<bar> then d else d - 1)"

definition round_even :: "rat \<Rightarrow> int" where
  "round_even y = (let f = \<lfloor>y\<rfloor>; d = y - of_int f
                   in if d < 1 / 2 then f else if 1 / 2 < d then f + 1
                      else if even f then f else f + 1)"

text \<open>
  Rounding to 53 significant bits: \<open>quantum x\<close> is the spacing of the binary64
  values around \<open>x\<close>; below \<open>2 powi (- 1022)\<close> it stays \<open>2 powi (- 1074)\<close>
  (subnormal numbers).
\<close>

definition quantum :: "rat \<Rightarrow> rat" where
  "quantum x = 2 powi (max (expo x) (- 1022) - 52)"

definition rnd :: "rat \<Rightarrow> rat" where
  "rnd x = (if x = 0 then 0 else of_int (round_even (x / quantum x)) * quantum x)"

definition fl :: "rat \<Rightarrow> number" where
  "fl x = (let y = rnd x
           in if 2 ^ 1024 \<le> \<bar>y\<bar> then (if 0 < x then PInf else NInf) else Fin y)"

fun js_neg :: "number \<Rightarrow> number" where
  "js_neg NaN = NaN"
| "js_neg PInf = NInf"
| "js_neg NInf = PInf"
| "js_neg (Fin x) = Fin (- x)"

fun js_add :: "number \<Rightarrow> number \<Rightarrow> number" where
  "js_add NaN _ = NaN"
| "js_add _ NaN = NaN"
| "js_add PInf NInf = NaN"
| "js_add NInf PInf = NaN"
| "js_add PInf _ = PInf"
| "js_add _ PInf = PInf"
| "js_add NInf _ = NInf"
| "js_add _ NInf = NInf"
| "js_add (Fin x) (Fin y) = fl (x + y)"

definition js_sub :: "number \<Rightarrow> number \<Rightarrow> number" where
  "js_sub a b = js_add a (js_neg b)"

fun sign_of :: "number \<Rightarrow> int" where
  "sign_of NaN = 0"
| "sign_of PInf = 1"
| "sign_of NInf = - 1"
| "sign_of (Fin x) = sgn \<lfloor>x\<rfloor> + (if x < 0 then 0 else if x = 0 then 0 else 1 - sgn \<lfloor>x\<rfloor>)"

definition inf_of_sign :: "int \<Rightarrow> number" where
  "inf_of_sign s = (if s = 0 then NaN else if 0 < s then PInf else NInf)"

fun js_mul :: "number \<Rightarrow> number \<Rightarrow> number" where
  "js_mul NaN _ = NaN"
| "js_mul _ NaN = NaN"
| "js_mul (Fin x) (Fin y) = fl (x * y)"
| "js_mul a b = inf_of_sign (sign_of a * sign_of b)"

text \<open>
  In \<open>js_div\<close> a zero divisor stands for \<open>+0\<close>; the functions below divide by
  the literals 16, 30 and 100 only.
\<close>

fun js_div :: "number \<Rightarrow> number \<Rightarrow> number" where
  "js_div NaN _ = NaN"
| "js_div _ NaN = NaN"
| "js_div (Fin x) (Fin y) = (if y = 0 then inf_of_sign (sign_of (Fin x)) else fl (x / y))"
| "js_div (Fin x) _ = Fin 0"
| "js_div a (Fin y) = inf_of_sign (sign_of a * (if y < 0 then - 1 else 1))"
| "js_div _ _ = NaN"

text \<open>The remainder operator \<^verbatim>\<open>%\<close>: the result has the sign of the dividend and is exact.\<close>

definition trunc :: "rat \<Rightarrow> int" where
  "trunc x = (if 0 \<le> x then \<lfloor>x\<rfloor> else - \<lfloor>- x\<rfloor>)"

fun js_rem :: "number \<Rightarrow> number \<Rightarrow> number" where
  "js_rem NaN _ = NaN"
| "js_rem _ NaN = NaN"
| "js_rem PInf _ = NaN"
| "js_rem NInf _ = NaN"
| "js_rem (Fin x) (Fin y) = (if y = 0 then NaN else Fin (x - y * of_int (trunc (x / y))))"
| "js_rem (Fin x) _ = Fin x"

fun js_lt :: "number \<Rightarrow> number \<Rightarrow> bool" where
  "js_lt (Fin x) (Fin y) = (x < y)"
| "js_lt NInf (Fin _) = True"
| "js_lt NInf PInf = True"
| "js_lt (Fin _) PInf = True"
| "js_lt _ _ = False"

fun min2 :: "number \<Rightarrow> number \<Rightarrow> number" where
  "min2 NaN _ = NaN"
| "min2 _ NaN = NaN"
| "min2 a b = (if js_lt b a then b else a)"

fun max2 :: "number \<Rightarrow> number \<Rightarrow> number" where
  "max2 NaN _ = NaN"
| "max2 _ NaN = NaN"
| "max2 a b = (if js_lt a b then b else a)"

text \<open>\<^verbatim>\<open>Math.min\<close> and \<^verbatim>\<open>Math.max\<close> take any number of arguments.\<close>

definition Math_min :: "number list \<Rightarrow> number" where
  "Math_min xs = foldl min2 PInf xs"

definition Math_max :: "number list \<Rightarrow> number" where
  "Math_max xs = foldl max2 NInf xs"

text \<open>\<^verbatim>\<open>Math.round\<close>: the nearest integer, a tie going towards \<open>+\<infinity>\<close>; no rounding error.\<close>

fun Math_round :: "number \<Rightarrow> number" where
  "Math_round (Fin x) = Fin (of_int \<lfloor>x + 1 / 2\<rfloor>)"
| "Math_round a = a"

text \<open>
  \<^verbatim>\<open>Math.pow\<close> at an integer exponent (the exponents of the step table are the
  literals \<open>-2 \<dots> 7\<close>).  The language fixes the result 1 for exponent 0, also
  for a \<open>NaN\<close> base, and \<open>NaN\<close> for a \<open>NaN\<close> base otherwise.  For a finite
  nonzero base and a nonzero exponent the language leaves the result
  implementation-approximated: there \<^verbatim>\<open>Math.pow\<close> returns what the host's
  function \<open>pw\<close> returns, and \<open>pw\<close> is a parameter of the model.
\<close>

fun Math_pow :: "(rat \<Rightarrow> int \<Rightarrow> number) \<Rightarrow> number \<Rightarrow> int \<Rightarrow> number" where
  "Math_pow pw NaN e = (if e = 0 then Fin 1 else NaN)"
| "Math_pow pw PInf e = (if e = 0 then Fin 1 else if 0 < e then PInf else Fin 0)"
| "Math_pow pw NInf e = (if e = 0 then Fin 1 else if e < 0 then Fin 0
                         else if even e then PInf else NInf)"
| "Math_pow pw (Fin x) e = (if e = 0 then Fin 1
                            else if x = 0 then (if e < 0 then PInf else Fin 0)
                            else pw x e)"

text \<open>One host function: the correctly rounded power.\<close>

definition correctly_rounded :: "rat \<Rightarrow> int \<Rightarrow> number" where
  "correctly_rounded x e = fl (x powi e)"

text \<open>
  \<^verbatim>\<open>ToNumber\<close> of a property lookup: a missing property is \<^verbatim>\<open>undefined\<close>, which
  converts to \<open>NaN\<close>.
\<close>

fun ToNumber :: "number option \<Rightarrow> number" where
  "ToNumber None = NaN"
| "ToNumber (Some v) = v"

section \<open>Numbers to strings\<close>

definition digit_char :: "nat \<Rightarrow> char" where
  "digit_char d = ''0123456789abcdef'' ! d"

function nat_digits :: "nat \<Rightarrow> nat \<Rightarrow> string" where
  "nat_digits b n = (if n < b \<or> b < 2 then [digit_char n]
                     else nat_digits b (n div b) @ [digit_char (n mod b)])"
  by pat_completeness auto
termination
  by (relation "measure snd") auto

declare nat_digits.simps [simp del]

text \<open>\<open>dexp x\<close> is the decimal exponent of \<open>x > 0\<close>: \<open>10 powi (dexp x - 1) \<le> x < 10 powi dexp x\<close>.\<close>

definition dexp :: "rat \<Rightarrow> int" where
  "dexp x = (if 1 \<le> x then int (length (nat_digits 10 (nat \<lfloor>x\<rfloor>)))
             else let d = 1 - int (length (nat_digits 10 (nat \<lfloor>1 / x\<rfloor>)))
                  in if 10 powi d \<le> x then d + 1 else d)"

text \<open>
  \<^verbatim>\<open>Number::toString\<close> prints the shortest decimal \<open>s \<times> 10 powi (n - k)\<close>, \<open>s\<close> of
  \<open>k\<close> digits, that reads back as the same binary64 value.  \<open>sig_cand x n k\<close>
  tries the two \<open>k\<close>-digit neighbours of \<open>x\<close>, the nearer one first.
\<close>

definition sig_cand :: "rat \<Rightarrow> int \<Rightarrow> nat \<Rightarrow> int option" where
  "sig_cand x n k =
     (let sc = 10 powi (n - int k); y = x / sc; lo = \<lfloor>y\<rfloor>; hi = lo + 1;
          fst_c = (if y - of_int lo < of_int hi - y then lo
                   else if of_int hi - y < y - of_int lo then hi
                   else if even lo then lo else hi);
          snd_c = (if fst_c = lo then hi else lo)
      in if fl (of_int fst_c * sc) = Fin x then Some fst_c
         else if fl (of_int snd_c * sc) = Fin x then Some snd_c
         else None)"

fun first_digits :: "rat \<Rightarrow> int \<Rightarrow> nat list \<Rightarrow> (int \<times> nat) option" where
  "first_digits x n [] = None"
| "first_digits x n (k # ks) =
     (case sig_cand x n k of Some s \<Rightarrow> Some (s, k) | None \<Rightarrow> first_digits x n ks)"

text \<open>
  The digits and the position \<open>n\<close> of the decimal point.  Seventeen digits
  identify every binary64 value; the last case is taken by no such value.
\<close>

definition shortest :: "rat \<Rightarrow> string \<times> int" where
  "shortest x =
     (let n = dexp x
      in case first_digits x n [1, 2, 3, 4, 5, 6, 7, 8, 9, 10, 11, 12, 13, 14, 15, 16, 17] of
           Some (s, k) \<Rightarrow> if s = 10 ^ k then (''1'', n + 1) else (nat_digits 10 (nat s), n)
         | None \<Rightarrow> (nat_digits 10 (nat \<lfloor>x / 10 powi (n - 17)\<rfloor>), n))"

definition pos_to_string :: "rat \<Rightarrow> string" where
  "pos_to_string x =
     (let ds = fst (shortest x); n = snd (shortest x); k = int (length ds)
      in if k \<le> n \<and> n \<le> 21 then ds @ replicate (nat (n - k)) CHR ''0''
         else if 0 < n \<and> n \<le> 21 then take (nat n) ds @ ''.'' @ drop (nat n) ds
         else if - 6 < n \<and> n \<le> 0 then ''0.'' @ replicate (nat (- n)) CHR ''0'' @ ds
         else let es = (if n - 1 < 0 then ''-'' else ''+'') @ nat_digits 10 (nat \<bar>n - 1\<bar>)
              in if k = 1 then ds @ ''e'' @ es
                 else take 1 ds @ ''.'' @ drop 1 ds @ ''e'' @ es)"

text \<open>\<^verbatim>\<open>String(x)\<close> and \<^verbatim>\<open>`${x}`\<close> for a number \<open>x\<close>.\<close>

fun numToString :: "number \<Rightarrow> string" where
  "numToString NaN = ''NaN''"
| "numToString PInf = ''Infinity''"
| "numToString NInf = ''-Infinity''"
| "numToString (Fin x) = (if x = 0 then ''0''
                          else if x < 0 then ''-'' @ pos_to_string (- x)
                          else pos_to_string x)"

text \<open>
  \<^verbatim>\<open>x.toString(16)\<close>.  It is applied to results of \<^verbatim>\<open>Math.round\<close> only, which
  have no fraction digits; the digits of the integer part are printed.
\<close>

fun toString16 :: "number \<Rightarrow> string" where
  "toString16 (Fin x) = (if x < 0 then ''-'' else []) @ nat_digits 16 (nat \<lfloor>\<bar>x\<bar>\<rfloor>)"
| "toString16 a = numToString a"

text \<open>
  \<^verbatim>\<open>x.toFixed(f)\<close> for \<open>1 \<le> f \<le> 100\<close>: the integer \<open>n\<close> nearest to \<open>\<bar>x\<bar> \<times> 10 ^ f\<close>,
  the larger one at a tie, printed with \<open>f\<close> fraction digits.
\<close>

fun toFixed :: "nat \<Rightarrow> number \<Rightarrow> string" where
  "toFixed f (Fin x) =
     (if 10 ^ 21 \<le> \<bar>x\<bar> then numToString (Fin x)
      else let m = nat_digits 10 (nat \<lfloor>\<bar>x\<bar> * 10 ^ f + 1 / 2\<rfloor>);
               m' = replicate (f + 1 - length m) CHR ''0'' @ m
           in (if x < 0 then ''-'' else []) @ take (length m' - f) m' @ ''.''
                @ drop (length m' - f) m')"
| "toFixed f a = numToString a"

definition padStart :: "nat \<Rightarrow> char \<Rightarrow> string \<Rightarrow> string" where
  "padStart n c s = replicate (n - length s) c @ s"

text \<open>\<^verbatim>\<open>s.replace(/0+$/, '')\<close> and \<^verbatim>\<open>s.replace(/\.$/, '')\<close>.\<close>

definition strip_zeros :: "string \<Rightarrow> string" where
  "strip_zeros s = rev (dropWhile (\<lambda>c. c = CHR ''0'') (rev s))"

definition strip_dot :: "string \<Rightarrow> string" where
  "strip_dot s = (if s \<noteq> [] \<and> last s = CHR ''.'' then butlast s else s)"

text \<open>\<^verbatim>\<open>s.replace(p, r)\<close> for a string pattern: the first occurrence only.\<close>

fun replace_first :: "string \<Rightarrow> string \<Rightarrow> string \<Rightarrow> string" where
  "replace_first p r [] = (if p = [] then r else [])"
| "replace_first p r (c # cs) =
     (if take (length p) (c # cs) = p then r @ drop (length p) (c # cs)
      else c # replace_first p r cs)"

section \<open>Type scale\<close>

text \<open>
  \<^verbatim>\<open>TYPE_SCALE_RATIOS\<close>: the object literal, as the list of its eight own
  properties; a decimal literal denotes the nearest binary64 value.  Looking
  up any other key yields \<^verbatim>\<open>undefined\<close> (or a member inherited from
  \<^verbatim>\<open>Object.prototype\<close>, none of which is a number): \<^verbatim>\<open>ToNumber\<close> of it is \<open>NaN\<close>.
\<close>

definition TYPE_SCALE_RATIOS :: "(string \<times> number) list" where
  "TYPE_SCALE_RATIOS =
     [(''minor-second'', fl (1067 / 1000)),
      (''major-second'', fl (1125 / 1000)),
      (''minor-third'', fl (1200 / 1000)),
      (''major-third'', fl (1250 / 1000)),
      (''perfect-fourth'', fl (1333 / 1000)),
      (''augmented-fourth'', fl (1414 / 1000)),
      (''perfect-fifth'', fl (1500 / 1000)),
      (''golden-ratio'', fl (1618 / 1000))]"

record TypeScaleStep =
  name :: string
  factor :: number
  rem :: string
  px :: number
  suggestedWeight :: nat
  suggestedLineHeight :: string

text \<open>An entry of the local table \<^verbatim>\<open>steps\<close> of \<^verbatim>\<open>generateTypeScale\<close>.\<close>

record StepDef =
  name :: string
  exponent :: int
  weight :: nat
  lineHeight :: string

definition steps :: "StepDef list" where
  "steps =
     [\<lparr>name = ''xs'', exponent = - 2, weight = 400, lineHeight = ''1.5''\<rparr>,
      \<lparr>name = ''sm'', exponent = - 1, weight = 400, lineHeight = ''1.5''\<rparr>,
      \<lparr>name = ''base'', exponent = 0, weight = 400, lineHeight = ''1.5''\<rparr>,
      \<lparr>name = ''lg'', exponent = 1, weight = 400, lineHeight = ''1.45''\<rparr>,
      \<lparr>name = ''xl'', exponent = 2, weight = 500, lineHeight = ''1.4''\<rparr>,
      \<lparr>name = ''2xl'', exponent = 3, weight = 600, lineHeight = ''1.35''\<rparr>,
      \<lparr>name = ''3xl'', exponent = 4, weight = 600, lineHeight = ''1.3''\<rparr>,
      \<lparr>name = ''4xl'', exponent = 5, weight = 700, lineHeight = ''1.2''\<rparr>,
      \<lparr>name = ''5xl'', exponent = 6, weight = 700, lineHeight = ''1.15''\<rparr>,
      \<lparr>name = ''display'', exponent = 7, weight = 800, lineHeight = ''1.1''\<rparr>]"

text \<open>The template \<^verbatim>\<open>`${(px / 16).toFixed(4).replace(/0+$/, '').replace(/\.$/, '')}rem`\<close>.\<close>

definition rem_of :: "number \<Rightarrow> string" where
  "rem_of p = strip_dot (strip_zeros (toFixed 4 (js_div p (Fin 16)))) @ ''rem''"

definition type_step ::
  "(rat \<Rightarrow> int \<Rightarrow> number) \<Rightarrow> number \<Rightarrow> number \<Rightarrow> StepDef \<Rightarrow> TypeScaleStep" where
  "type_step pw baseSizePx r step =
     (let p = js_div (Math_round (js_mul (js_mul baseSizePx (Math_pow pw r (exponent step)))
                                         (Fin 100)))
                     (Fin 100)
      in \<lparr>TypeScaleStep.name = StepDef.name step,
          factor = Math_pow pw r (exponent step),
          rem = rem_of p,
          px = p,
          suggestedWeight = weight step,
          suggestedLineHeight = lineHeight step\<rparr>)"

text \<open>
  \<^verbatim>\<open>generateTypeScale\<close> has no \<^verbatim>\<open>throw\<close> and calls nothing that throws: its
  result is always the list of steps.  Its first argument here is the host's
  power function, which \<^verbatim>\<open>Math.pow\<close> calls.
\<close>

definition generateTypeScale ::
  "(rat \<Rightarrow> int \<Rightarrow> number) \<Rightarrow> number \<Rightarrow> string \<Rightarrow> TypeScaleStep list" where
  "generateTypeScale pw baseSizePx ratio =
     (let r = ToNumber (map_of TYPE_SCALE_RATIOS ratio)
      in map (type_step pw baseSizePx r) steps)"

text \<open>
  The accuracy of the host's power function at a ratio \<open>r\<close>: for every nonzero
  exponent of the step table, the result is a finite number within the relative
  error \<open>1 / 1000\<close> of the exact power.
\<close>

definition pow_accurate :: "(rat \<Rightarrow> int \<Rightarrow> number) \<Rightarrow> number \<Rightarrow> bool" where
  "pow_accurate pw r =
     (case r of
        Fin x \<Rightarrow>
          list_all (\<lambda>e. e = 0 \<or>
              (case pw x e of
                 Fin p \<Rightarrow> \<bar>p - x powi e\<bar> \<le> x powi e / 1000
               | _ \<Rightarrow> False))
            (map exponent steps)
      | _ \<Rightarrow> False)"

text \<open>
  The values that \<^verbatim>\<open>Math.pow(r, e)\<close> and the pixel size
  \<^verbatim>\<open>Math.round(b * q * 100) / 100\<close> take for finite arguments when nothing
  overflows.
\<close>

definition pow_val :: "(rat \<Rightarrow> int \<Rightarrow> number) \<Rightarrow> rat \<Rightarrow> int \<Rightarrow> rat" where
  "pow_val pw r e = (case Math_pow pw (Fin r) e of Fin q \<Rightarrow> q | _ \<Rightarrow> 0)"

definition px_val :: "rat \<Rightarrow> rat \<Rightarrow> rat" where
  "px_val b q = rnd (of_int \<lfloor>rnd (rnd (b * q) * 100) + 1 / 2\<rfloor> / 100)"

section \<open>Color scale\<close>

record ColorScaleStop =
  shade :: nat
  lightness :: number

definition STANDARD_COLOR_SHADES :: "ColorScaleStop list" where
  "STANDARD_COLOR_SHADES =
     [\<lparr>shade = 50, lightness = Fin 97\<rparr>,
      \<lparr>shade = 100, lightness = Fin 93\<rparr>,
      \<lparr>shade = 200, lightness = Fin 85\<rparr>,
      \<lparr>shade = 300, lightness = Fin 74\<rparr>,
      \<lparr>shade = 400, lightness = Fin 62\<rparr>,
      \<lparr>shade = 500, lightness = Fin 50\<rparr>,
      \<lparr>shade = 600, lightness = Fin 41\<rparr>,
      \<lparr>shade = 700, lightness = Fin 33\<rparr>,
      \<lparr>shade = 800, lightness = Fin 24\<rparr>,
      \<lparr>shade = 900, lightness = Fin 15\<rparr>]"

record ColorScaleConfig =
  name :: string
  hue :: number
  saturation :: number

record GeneratedColorStop =
  shade :: nat
  hsl :: string
  hex :: string

text \<open>The inner function \<^verbatim>\<open>f\<close> of \<^verbatim>\<open>hslToHex\<close>, with the variables it captures.\<close>

definition hsl_f :: "number \<Rightarrow> number \<Rightarrow> number \<Rightarrow> number \<Rightarrow> string" where
  "hsl_f h lNorm a n =
     (let k = js_rem (js_add n (js_div h (Fin 30))) (Fin 12);
          color = js_sub lNorm
                    (js_mul a (Math_max [Math_min [js_sub k (Fin 3), js_sub (Fin 9) k, Fin 1],
                                         Fin (- 1)]))
      in padStart 2 CHR ''0'' (toString16 (Math_round (js_mul (Fin 255) color))))"

definition hslToHex :: "number \<Rightarrow> number \<Rightarrow> number \<Rightarrow> string" where
  "hslToHex h s l =
     (let lNorm = js_div l (Fin 100);
          a = js_mul (js_div s (Fin 100)) (Math_min [lNorm, js_sub (Fin 1) lNorm])
      in ''#'' @ hsl_f h lNorm a (Fin 0) @ hsl_f h lNorm a (Fin 8) @ hsl_f h lNorm a (Fin 4))"





definition satAdjust :: "ColorScaleConfig \<Rightarrow> ColorScaleStop \<Rightarrow> number" where
  "satAdjust config stop =
     (if js_lt (Fin 90) (lightness stop) \<or> js_lt (lightness stop) (Fin 20)
      then js_mul (saturation config) (fl (7 / 10))
      else saturation config)"

definition color_stop :: "ColorScaleConfig \<Rightarrow> ColorScaleStop \<Rightarrow> GeneratedColorStop" where
  "color_stop config stop =
     \<lparr>shade = ColorScaleStop.shade stop,
      hsl = ''hsl('' @ numToString (hue config) @ '', ''
              @ numToString (Math_round (satAdjust config stop)) @ ''%, ''
              @ numToString (lightness stop) @ ''%)'',
      hex = hslToHex (hue config) (Math_round (satAdjust config stop)) (lightness stop)\<rparr>"

definition generateColorScale :: "ColorScaleConfig \<Rightarrow> GeneratedColorStop list" where
  "generateColorScale config = map (color_stop config) STANDARD_COLOR_SHADES"

section \<open>Spacing scale\<close>

record SpacingStep =
  name :: string
  px :: number
  rem :: string

definition multipliers :: "number list" where
  "multipliers =
     [Fin 0, Fin (1 / 2), Fin 1, Fin (3 / 2), Fin 2, Fin (5 / 2), Fin 3, Fin 4, Fin 5, Fin 6,
      Fin 7, Fin 8, Fin 10, Fin 12, Fin 14, Fin 16, Fin 20, Fin 24, Fin 28, Fin 32]"

definition spacing_step :: "number \<Rightarrow> number \<Rightarrow> SpacingStep" where
  "spacing_step baseUnit mult =
     (let p = js_mul baseUnit mult
      in \<lparr>name = (if mult = Fin 0 then ''0''
                  else if js_lt mult (Fin 1) then replace_first ''0.'' ''0.'' (numToString mult)
                  else numToString mult),
          px = p,
          rem = rem_of p\<rparr>)"

definition generateSpacingScale :: "number \<Rightarrow> SpacingStep list" where
  "generateSpacingScale baseUnit = map (spacing_step baseUnit) multipliers"

section \<open>Evaluation on literals\<close>

lemma bitlen_numeral [simp]:
  "bitlen 1 = 1"
  "bitlen (numeral Num.One) = 1"
  "bitlen (numeral (Num.Bit0 n)) = bitlen (numeral n) + 1"
  "bitlen (numeral (Num.Bit1 n)) = bitlen (numeral n) + 1"
proof -
  show "bitlen 1 = 1" by (subst compute_bitlen) simp
  then show "bitlen (numeral Num.One) = 1" by simp
  show "bitlen (numeral (Num.Bit0 n)) = bitlen (numeral n) + 1"
    by (subst compute_bitlen) simp
  have "(numeral (Num.Bit1 n) :: int) div 2 = numeral n" by simp
  then show "bitlen (numeral (Num.Bit1 n)) = bitlen (numeral n) + 1"
    by (subst compute_bitlen) simp
qed

lemma floor_rat_numeral [simp]:
  "\<lfloor>(numeral a :: rat) / numeral b\<rfloor> = numeral a div numeral b"
  "\<lfloor>- ((numeral a :: rat) / numeral b)\<rfloor> = - numeral a div numeral b"
  "\<lfloor>(1 :: rat) / numeral b\<rfloor> = 1 div numeral b"
  "\<lfloor>- ((1 :: rat) / numeral b)\<rfloor> = - 1 div numeral b"
  using floor_divide_of_int_eq [of "numeral a" "numeral b", where ?'a = rat]
    floor_divide_of_int_eq [of "- numeral a" "numeral b", where ?'a = rat]
    floor_divide_of_int_eq [of "1" "numeral b", where ?'a = rat]
    floor_divide_of_int_eq [of "- 1" "numeral b", where ?'a = rat]
  by simp_all

text \<open>
  The unfolding rules for evaluating the model on literals.  They are used
  together with the congruence rule \<open>let_weak_cong\<close>, so that a bound term is
  evaluated before the body of its \<open>let\<close>.
\<close>

lemmas num_eval = rnd_def quantum_def expo_def round_even_def fl_def Let_def trunc_def
  Math_min_def Math_max_def js_sub_def inf_of_sign_def

declare numToString.simps [simp del] toString16.simps [simp del] toFixed.simps [simp del]

lemmas str_eval = nat_digits.simps digit_char_def padStart_def strip_zeros_def strip_dot_def
  dexp_def sig_cand_def shortest_def pos_to_string_def rem_of_def
  numToString.simps toString16.simps toFixed.simps

lemmas prog_eval = generateTypeScale_def type_step_def steps_def TYPE_SCALE_RATIOS_def
  generateColorScale_def color_stop_def satAdjust_def STANDARD_COLOR_SHADES_def
  hslToHex_def hsl_f_def generateSpacingScale_def spacing_step_def multipliers_def

lemma js_mul_NaN_right [simp]: "js_mul b NaN = NaN"
  by (cases b) simp_all

lemma rem_of_NaN: "rem_of NaN = ''NaNrem''"
  by (simp add: rem_of_def strip_zeros_def strip_dot_def toFixed.simps numToString.simps)

section \<open>The type scale and its ratio names\<close>

text \<open>
  Claim C1, as the specification states it: for a ratio name outside the
  eight names of \<^verbatim>\<open>TYPE_SCALE_RATIOS\<close>, \<^verbatim>\<open>generateTypeScale\<close> fails with an
  "unrecognized ratio" error and returns no result.  The code has no such
  check: \<^verbatim>\<open>generateTypeScale(16, 'bogus')\<close> returns ten steps, nine of them
  with the pixel size \<open>NaN\<close>, whatever the host's power function is.
\<close>

theorem generateTypeScale_bogus_counterexample:
  "''bogus'' \<notin> fst ` set TYPE_SCALE_RATIOS \<and>
   (\<forall>pw. generateTypeScale pw (Fin 16) ''bogus'' =
     [\<lparr>TypeScaleStep.name = ''xs'', factor = NaN, rem = ''NaNrem'', px = NaN,
        suggestedWeight = 400, suggestedLineHeight = ''1.5''\<rparr>,
      \<lparr>TypeScaleStep.name = ''sm'', factor = NaN, rem = ''NaNrem'', px = NaN,
        suggestedWeight = 400, suggestedLineHeight = ''1.5''\<rparr>,
      \<lparr>TypeScaleStep.name = ''base'', factor = Fin 1, rem = ''1rem'', px = Fin 16,
        suggestedWeight = 400, suggestedLineHeight = ''1.5''\<rparr>,
      \<lparr>TypeScaleStep.name = ''lg'', factor = NaN, rem = ''NaNrem'', px = NaN,
        suggestedWeight = 400, suggestedLineHeight = ''1.45''\<rparr>,
      \<lparr>TypeScaleStep.name = ''xl'', factor = NaN, rem = ''NaNrem'', px = NaN,
        suggestedWeight = 500, suggestedLineHeight = ''1.4''\<rparr>,
      \<lparr>TypeScaleStep.name = ''2xl'', factor = NaN, rem = ''NaNrem'', px = NaN,
        suggestedWeight = 600, suggestedLineHeight = ''1.35''\<rparr>,
      \<lparr>TypeScaleStep.name = ''3xl'', factor = NaN, rem = ''NaNrem'', px = NaN,
        suggestedWeight = 600, suggestedLineHeight = ''1.3''\<rparr>,
      \<lparr>TypeScaleStep.name = ''4xl'', factor = NaN, rem = ''NaNrem'', px = NaN,
        suggestedWeight = 700, suggestedLineHeight = ''1.2''\<rparr>,
      \<lparr>TypeScaleStep.name = ''5xl'', factor = NaN, rem = ''NaNrem'', px = NaN,
        suggestedWeight = 700, suggestedLineHeight = ''1.15''\<rparr>,
      \<lparr>TypeScaleStep.name = ''display'', factor = NaN, rem = ''NaNrem'', px = NaN,
        suggestedWeight = 800, suggestedLineHeight = ''1.1''\<rparr>])"
  by (simp add: prog_eval num_eval str_eval cong: let_weak_cong)

text \<open>
  Claim C1, amended to what the code does: for every ratio name outside the
  eight names and every base size, \<^verbatim>\<open>generateTypeScale\<close> raises no error and
  returns the ten named steps; the lookup yields \<^verbatim>\<open>undefined\<close>, so every step
  other than \<open>base\<close> has the factor and pixel size \<open>NaN\<close> and the rem string
  \<open>NaNrem\<close>, and the step \<open>base\<close> (exponent 0) has the factor 1.
\<close>

theorem generateTypeScale_unrecognized_ratio:
  assumes "ratio \<notin> fst ` set TYPE_SCALE_RATIOS"
  shows "generateTypeScale pw b ratio =
     [\<lparr>TypeScaleStep.name = ''xs'', factor = NaN, rem = ''NaNrem'', px = NaN,
        suggestedWeight = 400, suggestedLineHeight = ''1.5''\<rparr>,
      \<lparr>TypeScaleStep.name = ''sm'', factor = NaN, rem = ''NaNrem'', px = NaN,
        suggestedWeight = 400, suggestedLineHeight = ''1.5''\<rparr>,
      \<lparr>TypeScaleStep.name = ''base'', factor = Fin 1,
        rem = rem_of (js_div (Math_round (js_mul (js_mul b (Fin 1)) (Fin 100))) (Fin 100)),
        px = js_div (Math_round (js_mul (js_mul b (Fin 1)) (Fin 100))) (Fin 100),
        suggestedWeight = 400, suggestedLineHeight = ''1.5''\<rparr>,
      \<lparr>TypeScaleStep.name = ''lg'', factor = NaN, rem = ''NaNrem'', px = NaN,
        suggestedWeight = 400, suggestedLineHeight = ''1.45''\<rparr>,
      \<lparr>TypeScaleStep.name = ''xl'', factor = NaN, rem = ''NaNrem'', px = NaN,
        suggestedWeight = 500, suggestedLineHeight = ''1.4''\<rparr>,
      \<lparr>TypeScaleStep.name = ''2xl'', factor = NaN, rem = ''NaNrem'', px = NaN,
        suggestedWeight = 600, suggestedLineHeight = ''1.35''\<rparr>,
      \<lparr>TypeScaleStep.name = ''3xl'', factor = NaN, rem = ''NaNrem'', px = NaN,
        suggestedWeight = 600, suggestedLineHeight = ''1.3''\<rparr>,
      \<lparr>TypeScaleStep.name = ''4xl'', factor = NaN, rem = ''NaNrem'', px = NaN,
        suggestedWeight = 700, suggestedLineHeight = ''1.2''\<rparr>,
      \<lparr>TypeScaleStep.name = ''5xl'', factor = NaN, rem = ''NaNrem'', px = NaN,
        suggestedWeight = 700, suggestedLineHeight = ''1.15''\<rparr>,
      \<lparr>TypeScaleStep.name = ''display'', factor = NaN, rem = ''NaNrem'', px = NaN,
        suggestedWeight = 800, suggestedLineHeight = ''1.1''\<rparr>]"
proof -
  from assms have "map_of TYPE_SCALE_RATIOS ratio = None"
    by (simp add: map_of_eq_None_iff)
  then show ?thesis
    by (simp add: generateTypeScale_def type_step_def steps_def rem_of_NaN Let_def)
qed

theorem generateTypeScale_unrecognized_ratio_witness:
  "''bogus'' \<notin> fst ` set TYPE_SCALE_RATIOS \<and>
   (\<forall>pw. map TypeScaleStep.px (generateTypeScale pw (Fin 16) ''bogus'') =
     [NaN, NaN, js_div (Math_round (js_mul (js_mul (Fin 16) (Fin 1)) (Fin 100))) (Fin 100),
      NaN, NaN, NaN, NaN, NaN, NaN, NaN])"
proof -
  have h: "''bogus'' \<notin> fst ` set TYPE_SCALE_RATIOS"
    by (simp add: TYPE_SCALE_RATIOS_def)
  show ?thesis
    using h generateTypeScale_unrecognized_ratio [OF h, where b = "Fin 16"] by simp
qed

section \<open>The color scale\<close>

text \<open>
  Claim C4: for every input (any family name, hue and saturation),
  \<^verbatim>\<open>generateColorScale\<close> returns exactly 10 stops whose shades are 50, 100,
  200, 300, 400, 500, 600, 700, 800, 900 in this order, the stop of each
  shade being computed (its hsl string and its hex) from the fixed target
  lightness 97, 93, 85, 74, 62, 50, 41, 33, 24, 15 respectively.
\<close>

theorem generateColorScale_ten_stops:
  "length (generateColorScale config) = 10 \<and>
   map GeneratedColorStop.shade (generateColorScale config) =
     [50, 100, 200, 300, 400, 500, 600, 700, 800, 900] \<and>
   map lightness STANDARD_COLOR_SHADES =
     [Fin 97, Fin 93, Fin 85, Fin 74, Fin 62, Fin 50, Fin 41, Fin 33, Fin 24, Fin 15] \<and>
   map (\<lambda>c. (GeneratedColorStop.shade c, hsl c, hex c)) (generateColorScale config) =
     map (\<lambda>(sh, l). (sh,
            ''hsl('' @ numToString (hue config) @ '', ''
              @ numToString (Math_round (satAdjust config \<lparr>ColorScaleStop.shade = sh, lightness = l\<rparr>))
              @ ''%, '' @ numToString l @ ''%)'',
            hslToHex (hue config)
              (Math_round (satAdjust config \<lparr>ColorScaleStop.shade = sh, lightness = l\<rparr>)) l))
       [(50, Fin 97), (100, Fin 93), (200, Fin 85), (300, Fin 74), (400, Fin 62),
        (500, Fin 50), (600, Fin 41), (700, Fin 33), (800, Fin 24), (900, Fin 15)]"
  by (simp add: generateColorScale_def color_stop_def STANDARD_COLOR_SHADES_def)

text \<open>
  Claim C3, amended to what the code does: the saturation handed to the
  HSL to RGB conversion is \<^verbatim>\<open>Math.round(saturation * 0.7)\<close> for the stops of
  target lightness above 90 or below 20 (shades 50, 100 and 900) and
  \<^verbatim>\<open>Math.round(saturation)\<close> for the other stops: the adjusted saturation is
  rounded to the nearest integer before the conversion, and the hex of a stop
  is \<^verbatim>\<open>hslToHex\<close> of the hue, that integer and the target lightness.
\<close>

theorem generateColorScale_saturation:
  "map hex (generateColorScale config) =
     (let h = hue config; s = saturation config; s' = js_mul s (fl (7 / 10))
      in [hslToHex h (Math_round s') (Fin 97),
          hslToHex h (Math_round s') (Fin 93),
          hslToHex h (Math_round s) (Fin 85),
          hslToHex h (Math_round s) (Fin 74),
          hslToHex h (Math_round s) (Fin 62),
          hslToHex h (Math_round s) (Fin 50),
          hslToHex h (Math_round s) (Fin 41),
          hslToHex h (Math_round s) (Fin 33),
          hslToHex h (Math_round s) (Fin 24),
          hslToHex h (Math_round s') (Fin 15)])"
  by (simp add: generateColorScale_def color_stop_def STANDARD_COLOR_SHADES_def satAdjust_def
      Let_def)

text \<open>Evaluations for hue 0 and saturation 38 at the stop of shade 900.\<close>

lemma generateColorScale_nth_9:
  "generateColorScale config ! 9 =
     color_stop config \<lparr>ColorScaleStop.shade = 900, lightness = Fin 15\<rparr>"
  by (simp add: generateColorScale_def STANDARD_COLOR_SHADES_def)

lemma round_38_times_07: "Math_round (js_mul (Fin 38) (fl (7 / 10))) = Fin 27"
  by (simp add: num_eval cong: let_weak_cong)

lemma satAdjust_38_900:
  "Math_round (satAdjust \<lparr>ColorScaleConfig.name = ''red'', hue = Fin 0, saturation = Fin 38\<rparr>
                 \<lparr>ColorScaleStop.shade = 900, lightness = Fin 15\<rparr>) = Fin 27"
  by (simp add: satAdjust_def round_38_times_07)

lemma hslToHex_0_27_15: "hslToHex (Fin 0) (Fin 27) (Fin 15) = ''#311c1c''"
  by (simp add: prog_eval num_eval str_eval cong: let_weak_cong)

lemma numToString_small:
  "numToString (Fin 0) = ''0''" "numToString (Fin 15) = ''15''" "numToString (Fin 27) = ''27''"
  by (simp_all add: num_eval str_eval cong: let_weak_cong option.case_cong_weak)

text \<open>
  Claim C3, as the specification states it: at a stop of lightness above 90
  or below 20 the saturation used is exactly 0.7 times the input saturation,
  so that the hex is the direct conversion with that saturation.  For hue 0
  and saturation 38 the stop of shade 900 (lightness 15) is converted with the
  saturation 27, not 26.6: its hex is \<open>#311c1c\<close> and its hsl string shows 27,
  whereas the conversion with \<^verbatim>\<open>38 * 0.7\<close> (or with the literal 26.6) gives
  \<open>#301c1c\<close>.
\<close>

theorem saturation_rounded_counterexample:
  "hex (generateColorScale \<lparr>ColorScaleConfig.name = ''red'', hue = Fin 0, saturation = Fin 38\<rparr> ! 9)
     = ''#311c1c'' \<and>
   hsl (generateColorScale \<lparr>ColorScaleConfig.name = ''red'', hue = Fin 0, saturation = Fin 38\<rparr> ! 9)
     = ''hsl(0, 27%, 15%)'' \<and>
   hslToHex (Fin 0) (js_mul (Fin 38) (fl (7 / 10))) (Fin 15) = ''#301c1c'' \<and>
   hslToHex (Fin 0) (fl (266 / 10)) (Fin 15) = ''#301c1c''"
proof -
  have "hslToHex (Fin 0) (js_mul (Fin 38) (fl (7 / 10))) (Fin 15) = ''#301c1c''"
    by (simp add: prog_eval num_eval str_eval cong: let_weak_cong)
  moreover have "hslToHex (Fin 0) (fl (266 / 10)) (Fin 15) = ''#301c1c''"
    by (simp add: prog_eval num_eval str_eval cong: let_weak_cong)
  ultimately show ?thesis
    by (simp add: generateColorScale_nth_9 color_stop_def satAdjust_38_900 hslToHex_0_27_15
        numToString_small)
qed

text \<open>
  Claim C9: for every call and every stop, the hsl string and the hex describe
  the same color: the hex is \<^verbatim>\<open>hslToHex\<close> of the input hue, the adjusted
  saturation rounded by \<^verbatim>\<open>Math.round\<close> and the target lightness of the stop,
  and the hsl string prints that same hue, rounded saturation and lightness;
  the rounded saturation, when finite, is an integer.
\<close>

theorem hsl_string_and_hex_agree:
  "map (\<lambda>c. (hsl c, hex c)) (generateColorScale config) =
     map (\<lambda>stop. (''hsl('' @ numToString (hue config) @ '', ''
                      @ numToString (Math_round (satAdjust config stop)) @ ''%, ''
                      @ numToString (lightness stop) @ ''%)'',
                    hslToHex (hue config) (Math_round (satAdjust config stop)) (lightness stop)))
       STANDARD_COLOR_SHADES
   \<and> (\<forall>stop q. Math_round (satAdjust config stop) = Fin q \<longrightarrow> of_int \<lfloor>q\<rfloor> = q)"
proof -
  have "of_int \<lfloor>q\<rfloor> = q" if "Math_round a = Fin q" for a q
    using that by (cases a) auto
  then show ?thesis
    by (simp add: generateColorScale_def color_stop_def)
qed


text \<open>
  Witness for C9 at hue 0, saturation 38 and the stop of shade 900: the rounded
  saturation is the integer 27.
\<close>

theorem hsl_string_and_hex_agree_witness:
  "Math_round (satAdjust \<lparr>ColorScaleConfig.name = ''red'', hue = Fin 0, saturation = Fin 38\<rparr>
                 \<lparr>ColorScaleStop.shade = 900, lightness = Fin 15\<rparr>) = Fin 27 \<and>
   rat_of_int \<lfloor>27 :: rat\<rfloor> = 27"
proof -
  note t = hsl_string_and_hex_agree
    [of "\<lparr>ColorScaleConfig.name = ''red'', hue = Fin 0, saturation = Fin 38\<rparr>"]
  from t satAdjust_38_900 have "rat_of_int \<lfloor>27 :: rat\<rfloor> = 27"
    by blast
  with satAdjust_38_900 show ?thesis ..
qed

section \<open>The spacing scale\<close>

lemma replace_first_same: "replace_first p p s = s"
proof (induction s)
  case Nil
  then show ?case by simp
next
  case (Cons c cs)
  show ?case
  proof (cases "take (length p) (c # cs) = p")
    case True
    then have "p @ drop (length p) (c # cs) = c # cs"
      using append_take_drop_id [of "length p" "c # cs"] by simp
    with True show ?thesis by simp
  next
    case False
    with Cons show ?thesis by simp
  qed
qed

lemma numToString_multipliers:
  "map numToString multipliers =
     [''0'', ''0.5'', ''1'', ''1.5'', ''2'', ''2.5'', ''3'', ''4'', ''5'', ''6'', ''7'', ''8'',
      ''10'', ''12'', ''14'', ''16'', ''20'', ''24'', ''28'', ''32'']"
  by (simp add: multipliers_def num_eval str_eval cong: let_weak_cong option.case_cong_weak)

lemma spacing_step_name: "SpacingStep.name (spacing_step b m) = numToString m"
  by (simp add: spacing_step_def Let_def replace_first_same numToString.simps)

lemma spacing_step_px: "SpacingStep.px (spacing_step b m) = js_mul b m"
  by (simp add: spacing_step_def Let_def)

lemma js_mul_4_multipliers:
  "map (js_mul (Fin 4)) multipliers =
     [Fin 0, Fin 2, Fin 4, Fin 6, Fin 8, Fin 10, Fin 12, Fin 16, Fin 20, Fin 24, Fin 28,
      Fin 32, Fin 40, Fin 48, Fin 56, Fin 64, Fin 80, Fin 96, Fin 112, Fin 128]"
  by (simp add: multipliers_def num_eval cong: let_weak_cong)

lemma map_pair_zip: "map (\<lambda>x. (f x, g x)) xs = zip (map f xs) (map g xs)"
  by (induction xs) simp_all

text \<open>
  Claim C8: for every base unit, \<^verbatim>\<open>generateSpacingScale\<close> returns one step per
  multiplier of the fixed list 0, 0.5, 1, 1.5, 2, 2.5, 3, 4, 5, 6, 7, 8, 10,
  12, 14, 16, 20, 24, 28, 32, in this order; the pixel value of a step is the
  product \<^verbatim>\<open>baseUnit * mult\<close> and its name is \<^verbatim>\<open>String(mult)\<close>, that is
  \<open>0\<close>, \<open>0.5\<close>, \<open>1\<close>, \<dots>; for the base unit 4 the step named \<open>4\<close> has 16
  pixels and the step named \<open>0\<close> has 0.
\<close>

theorem generateSpacingScale_steps:
  "map (\<lambda>s. (SpacingStep.name s, SpacingStep.px s)) (generateSpacingScale b) =
     map (\<lambda>m. (numToString m, js_mul b m))
       [Fin 0, Fin (1 / 2), Fin 1, Fin (3 / 2), Fin 2, Fin (5 / 2), Fin 3, Fin 4, Fin 5,
        Fin 6, Fin 7, Fin 8, Fin 10, Fin 12, Fin 14, Fin 16, Fin 20, Fin 24, Fin 28, Fin 32] \<and>
   map SpacingStep.name (generateSpacingScale b) =
     [''0'', ''0.5'', ''1'', ''1.5'', ''2'', ''2.5'', ''3'', ''4'', ''5'', ''6'', ''7'', ''8'',
      ''10'', ''12'', ''14'', ''16'', ''20'', ''24'', ''28'', ''32''] \<and>
   map (\<lambda>s. (SpacingStep.name s, SpacingStep.px s)) (generateSpacingScale (Fin 4)) =
     [(''0'', Fin 0), (''0.5'', Fin 2), (''1'', Fin 4), (''1.5'', Fin 6), (''2'', Fin 8),
      (''2.5'', Fin 10), (''3'', Fin 12), (''4'', Fin 16), (''5'', Fin 20), (''6'', Fin 24),
      (''7'', Fin 28), (''8'', Fin 32), (''10'', Fin 40), (''12'', Fin 48), (''14'', Fin 56),
      (''16'', Fin 64), (''20'', Fin 80), (''24'', Fin 96), (''28'', Fin 112),
      (''32'', Fin 128)]"
proof -
  have step: "map (\<lambda>s. (SpacingStep.name s, SpacingStep.px s)) (generateSpacingScale c) =
      map (\<lambda>m. (numToString m, js_mul c m)) multipliers" for c
    by (simp add: generateSpacingScale_def spacing_step_name spacing_step_px)
  have names: "map SpacingStep.name (generateSpacingScale c) = map numToString multipliers" for c
    by (simp add: generateSpacingScale_def spacing_step_name)
  have four: "map (\<lambda>s. (SpacingStep.name s, SpacingStep.px s)) (generateSpacingScale (Fin 4)) =
      zip (map numToString multipliers) (map (js_mul (Fin 4)) multipliers)"
    unfolding step by (rule map_pair_zip)
  show ?thesis
    using step [of b] names [of b] four
    by (simp add: numToString_multipliers js_mul_4_multipliers) (simp add: multipliers_def)
qed

section \<open>Rounding to binary64\<close>

lemma two_powi_less: "a < b \<Longrightarrow> (2::rat) powi a < 2 powi b"
  by (rule power_int_strict_increasing) simp_all

lemma two_powi_le: "a \<le> b \<Longrightarrow> (2::rat) powi a \<le> 2 powi b"
  by (rule power_int_increasing) simp_all

lemma two_powi_less_iff: "(2::rat) powi a < 2 powi b \<longleftrightarrow> a < b"
  using two_powi_less [of a b] two_powi_le [of b a] by (auto simp: not_less [symmetric])

lemma two_powi_le_iff: "(2::rat) powi a \<le> 2 powi b \<longleftrightarrow> a \<le> b"
  using two_powi_less [of b a] two_powi_le [of a b] by (auto simp: not_le [symmetric])

lemma two_powi_add: "(2::rat) powi (a + b) = 2 powi a * 2 powi b"
  by (simp add: power_int_add)

lemma two_powi_diff: "(2::rat) powi (a - b) = 2 powi a / 2 powi b"
  by (simp add: power_int_diff)

lemma two_powi_nat: "0 \<le> k \<Longrightarrow> (2::rat) powi k = of_int (2 ^ nat k)"
  by (simp add: power_int_def)

lemma bitlen_ge_1: "0 < f \<Longrightarrow> 1 \<le> bitlen f"
  using bitlen_eq_zero_iff [of f] bitlen_nonneg [of f] by linarith

lemma int_pow_bounds:
  assumes "0 < f"
  shows "(2::rat) powi (bitlen f - 1) \<le> of_int f" and "of_int f + 1 \<le> (2::rat) powi bitlen f"
proof -
  from bitlen_bounds [OF assms]
  have b1: "2 ^ nat (bitlen f - 1) \<le> f" and b2: "f + 1 \<le> 2 ^ nat (bitlen f)"
    by auto
  have bl: "1 \<le> bitlen f" using assms by (rule bitlen_ge_1)
  have "(2::rat) powi (bitlen f - 1) = of_int (2 ^ nat (bitlen f - 1))"
    using bl by (simp add: two_powi_nat)
  also have "\<dots> \<le> of_int f" using b1 by (simp only: of_int_le_iff)
  finally show "(2::rat) powi (bitlen f - 1) \<le> of_int f" .
  have "(of_int f + 1 :: rat) = of_int (f + 1)" by simp
  also have "\<dots> \<le> of_int (2 ^ nat (bitlen f))" using b2 by (simp only: of_int_le_iff)
  also have "\<dots> = (2::rat) powi bitlen f"
    using bl by (simp add: two_powi_nat)
  finally show "of_int f + 1 \<le> (2::rat) powi bitlen f" .
qed

lemma expo_bounds:
  assumes "x \<noteq> 0"
  shows "2 powi expo x \<le> \<bar>x\<bar>" and "\<bar>x\<bar> < 2 powi (expo x + 1)"
proof -
  define a where "a = \<bar>x\<bar>"
  have a: "0 < a" using assms by (simp add: a_def)
  have "2 powi expo x \<le> a \<and> a < 2 powi (expo x + 1)"
  proof (cases "1 \<le> a")
    case True
    define f where "f = \<lfloor>a\<rfloor>"
    have f: "0 < f" using True by (simp add: f_def)
    have e: "expo x = bitlen f - 1" using True by (simp add: expo_def a_def f_def)
    have "of_int f \<le> a" by (simp add: f_def)
    with int_pow_bounds(1) [OF f] have lo: "2 powi (bitlen f - 1) \<le> a" by simp
    have "a < of_int f + 1" using floor_correct [of a] by (simp add: f_def)
    with int_pow_bounds(2) [OF f] have hi: "a < 2 powi bitlen f" by simp
    from lo hi show ?thesis by (simp add: e)
  next
    case False
    define t where "t = 1 / a"
    define f where "f = \<lfloor>t\<rfloor>"
    define d where "d = 1 - bitlen f"
    have t1: "1 < t" using False a by (simp add: t_def)
    have f: "0 < f" using t1 by (simp add: f_def)
    have at: "a = 1 / t" by (simp add: t_def)
    have "of_int f \<le> t" by (simp add: f_def)
    with int_pow_bounds(1) [OF f] have lo: "2 powi (bitlen f - 1) \<le> t" by simp
    have "t < of_int f + 1" using floor_correct [of t] by (simp add: f_def)
    with int_pow_bounds(2) [OF f] have hi: "t < 2 powi bitlen f" by simp
    have p1: "(2::rat) powi d = 1 / 2 powi (bitlen f - 1)"
      by (simp add: d_def power_int_minus_divide [symmetric])
    have p2: "(2::rat) powi (d - 1) = 1 / 2 powi (bitlen f)"
      by (simp add: d_def power_int_minus_divide [symmetric])
    have ub: "a \<le> 2 powi d"
      unfolding at p1 using lo t1 by (simp add: frac_le)
    have lb: "2 powi (d - 1) < a"
      unfolding at p2 using hi t1 by (simp add: frac_less2)
    have e: "expo x = (if 2 powi d \<le> a then d else d - 1)"
      using False by (simp add: expo_def a_def t_def f_def d_def Let_def)
    show ?thesis
    proof (cases "2 powi d \<le> a")
      case True
      have "(2::rat) powi d < 2 powi (d + 1)" by (simp add: two_powi_less)
      with True ub show ?thesis by (simp add: e)
    next
      case False
      then show ?thesis using lb by (simp add: e)
    qed
  qed
  then show "2 powi expo x \<le> \<bar>x\<bar>" and "\<bar>x\<bar> < 2 powi (expo x + 1)"
    by (simp_all add: a_def)
qed

lemma expo_unique:
  assumes "2 powi e \<le> \<bar>x\<bar>" and "\<bar>x\<bar> < 2 powi (e + 1)"
  shows "expo x = e"
proof -
  have nz: "x \<noteq> 0"
  proof
    assume "x = 0"
    with assms(1) have "(2::rat) powi e \<le> 0" by simp
    moreover have "0 < (2::rat) powi e" by simp
    ultimately show False by linarith
  qed
  note b = expo_bounds [OF nz]
  from assms(1) b(2) have "(2::rat) powi e < 2 powi (expo x + 1)" by simp
  then have 1: "e < expo x + 1" by (simp add: two_powi_less_iff)
  from b(1) assms(2) have "(2::rat) powi expo x < 2 powi (e + 1)" by simp
  then have 2: "expo x < e + 1" by (simp add: two_powi_less_iff)
  from 1 2 show ?thesis by simp
qed

lemma expo_minus [simp]: "expo (- x) = expo x"
  by (simp add: expo_def)

lemma round_even_spec:
  "\<bar>of_int (round_even y) - y\<bar> < 1 / 2 \<or>
   (\<bar>of_int (round_even y) - y\<bar> = 1 / 2 \<and> even (round_even y))"
proof -
  define f where "f = \<lfloor>y\<rfloor>"
  have "of_int f \<le> y" "y < of_int f + 1"
    using floor_correct [of y] by (simp_all add: f_def)
  then show ?thesis
    unfolding round_even_def Let_def f_def [symmetric]
    by (auto simp: abs_if)
qed

lemma round_even_unique:
  assumes "\<bar>of_int n - y\<bar> < 1 / 2 \<or> (\<bar>of_int n - y\<bar> = 1 / 2 \<and> even n)"
  shows "round_even y = n"
proof -
  define m where "m = round_even y"
  have sm: "\<bar>of_int m - y\<bar> < 1 / 2 \<or> (\<bar>of_int m - y\<bar> = 1 / 2 \<and> even m)"
    unfolding m_def by (rule round_even_spec)
  have "\<bar>(of_int m :: rat) - of_int n\<bar> \<le> \<bar>of_int m - y\<bar> + \<bar>of_int n - y\<bar>"
    by linarith
  show "round_even y = n"
  proof (rule ccontr)
    assume "round_even y \<noteq> n"
    then have ne: "m \<noteq> n" by (simp add: m_def)
    then have "1 \<le> \<bar>m - n\<bar>" by linarith
    then have "(1::rat) \<le> of_int \<bar>m - n\<bar>" by (simp only: of_int_1_le_iff)
    then have ge: "(1::rat) \<le> \<bar>of_int m - of_int n\<bar>" by simp
    from ge sm assms have tie: "\<bar>of_int m - y\<bar> = 1 / 2" "\<bar>of_int n - y\<bar> = 1 / 2" "even m" "even n"
      by linarith+
    from tie(1,2) ge have "\<bar>(of_int m :: rat) - of_int n\<bar> = 1" by linarith
    then have "\<bar>(of_int (m - n) :: rat)\<bar> = 1" by simp
    then have "\<bar>m - n\<bar> = 1" by (metis of_int_1 of_int_abs of_int_eq_iff)
    with tie(3,4) show False by presburger
  qed
qed

lemma round_even_of_int [simp]: "round_even (of_int n) = n"
  by (rule round_even_unique) simp

lemma round_even_minus: "round_even (- y) = - round_even y"
proof (rule round_even_unique)
  have "\<bar>rat_of_int (- round_even y) - - y\<bar> = \<bar>of_int (round_even y) - y\<bar>"
    by (simp add: abs_minus_commute)
  with round_even_spec [of y]
  show "\<bar>rat_of_int (- round_even y) - - y\<bar> < 1 / 2 \<or>
        \<bar>rat_of_int (- round_even y) - - y\<bar> = 1 / 2 \<and> even (- round_even y)"
    by simp
qed

lemma round_even_error: "\<bar>of_int (round_even y) - y\<bar> \<le> 1 / 2"
  using round_even_spec [of y] by linarith

lemma round_even_mono:
  assumes "y \<le> z"
  shows "round_even y \<le> round_even z"
proof (rule ccontr)
  assume "\<not> round_even y \<le> round_even z"
  then have "round_even z + 1 \<le> round_even y" by simp
  then have "(of_int (round_even z + 1) :: rat) \<le> of_int (round_even y)"
    by (simp only: of_int_le_iff)
  then have 1: "(of_int (round_even z) :: rat) + 1 \<le> of_int (round_even y)" by simp
  from 1 assms round_even_spec [of y] round_even_spec [of z]
  have "of_int (round_even y) - y = 1 / 2" "y - of_int (round_even z) = 1 / 2"
       "even (round_even y)" "even (round_even z)"
    by linarith+
  then have "(of_int (round_even y) :: rat) - of_int (round_even z) = 1" by linarith
  then have "(of_int (round_even y - round_even z) :: rat) = of_int 1" by simp
  then have "round_even y - round_even z = 1" by (simp only: of_int_eq_iff)
  with \<open>even (round_even y)\<close> \<open>even (round_even z)\<close> show False by presburger
qed

lemma quantum_pos [simp]: "0 < quantum x"
  by (simp add: quantum_def)

lemma quantum_neq_0 [simp]: "quantum x \<noteq> 0"
  by (simp add: quantum_def)

lemma quantum_minus [simp]: "quantum (- x) = quantum x"
  by (simp add: quantum_def)

lemma rnd_0 [simp]: "rnd 0 = 0"
  by (simp add: rnd_def)

lemma rnd_minus: "rnd (- x) = - rnd x"
  by (simp add: rnd_def round_even_minus)

lemma rnd_error: "\<bar>rnd x - x\<bar> \<le> quantum x / 2"
proof (cases "x = 0")
  case True
  then show ?thesis using quantum_pos [of 0] by (simp add: less_imp_le)
next
  case False
  define q where "q = quantum x"
  have q: "0 < q" by (simp add: q_def)
  define n where "n = round_even (x / q)"
  have "rnd x - x = (of_int n - x / q) * q"
    using False q by (simp add: rnd_def q_def n_def field_simps)
  then have "\<bar>rnd x - x\<bar> = \<bar>of_int n - x / q\<bar> * q"
    using q by (simp add: abs_mult)
  also have "\<dots> \<le> 1 / 2 * q"
    using q round_even_error [of "x / q"] by (intro mult_right_mono) (simp_all add: n_def)
  finally show ?thesis by (simp add: q_def)
qed

lemma expo_ge:
  assumes "2 powi k \<le> \<bar>x\<bar>"
  shows "k \<le> expo x"
proof -
  have nz: "x \<noteq> 0"
  proof
    assume "x = 0"
    with assms have "(2::rat) powi k \<le> 0" by simp
    moreover have "0 < (2::rat) powi k" by simp
    ultimately show False by linarith
  qed
  from assms expo_bounds(2) [OF nz] have "(2::rat) powi k < 2 powi (expo x + 1)" by simp
  then show ?thesis by (simp add: two_powi_less_iff)
qed

lemma expo_less:
  assumes "x \<noteq> 0" and "\<bar>x\<bar> < 2 powi k"
  shows "expo x < k"
proof -
  from assms(2) expo_bounds(1) [OF assms(1)] have "(2::rat) powi expo x < 2 powi k" by simp
  then show ?thesis by (simp add: two_powi_less_iff)
qed

lemma quantum_normal:
  assumes "2 powi (- 1022) \<le> \<bar>x\<bar>"
  shows "quantum x = 2 powi expo x / 2 ^ 52" and "quantum x \<le> \<bar>x\<bar> / 2 ^ 52"
proof -
  have nz: "x \<noteq> 0" using assms expo_ge [of "- 1022" x] expo_bounds by (cases "x = 0") auto
  have e: "- 1022 \<le> expo x" using assms by (rule expo_ge)
  then show q: "quantum x = 2 powi expo x / 2 ^ 52"
    by (simp add: quantum_def max_def two_powi_diff)
  show "quantum x \<le> \<bar>x\<bar> / 2 ^ 52"
    unfolding q using expo_bounds(1) [OF nz] by (simp add: divide_right_mono)
qed

lemma rnd_rel_error:
  assumes "2 powi (- 1022) \<le> \<bar>x\<bar>"
  shows "\<bar>rnd x - x\<bar> \<le> \<bar>x\<bar> / 2 ^ 53"
proof -
  have "\<bar>rnd x - x\<bar> \<le> quantum x / 2" by (rule rnd_error)
  also have "\<dots> \<le> (\<bar>x\<bar> / 2 ^ 52) / 2"
    using quantum_normal(2) [OF assms] by simp
  also have "\<dots> = \<bar>x\<bar> / 2 ^ 53" by simp
  finally show ?thesis .
qed

text \<open>A value \<open>n \<times> 2 powi k\<close> with \<open>\<bar>n\<bar> < 2 ^ 53\<close> and \<open>k \<ge> - 1074\<close> is a binary64 value.\<close>

lemma rnd_fix:
  assumes x: "x = of_int n * 2 powi k" and n: "\<bar>n\<bar> < 2 ^ 53" and k: "- 1074 \<le> k"
  shows "rnd x = x"
proof (cases "x = 0")
  case True
  then show ?thesis by simp
next
  case False
  have "\<bar>x\<bar> = of_int \<bar>n\<bar> * 2 powi k" by (simp add: x abs_mult)
  also have "\<dots> < of_int (2 ^ 53) * 2 powi k"
  proof (rule mult_strict_right_mono)
    show "rat_of_int \<bar>n\<bar> < rat_of_int (2 ^ 53)" using n by (simp only: of_int_less_iff)
    show "0 < (2::rat) powi k" by simp
  qed
  also have "\<dots> = 2 powi (k + 53)" by (simp add: two_powi_add)
  finally have "expo x < k + 53" using False by (intro expo_less)
  with k have e: "max (expo x) (- 1022) - 52 \<le> k" by simp
  define j where "j = k - (max (expo x) (- 1022) - 52)"
  have j: "0 \<le> j" using e by (simp add: j_def)
  have "(2::rat) powi k = 2 powi j * quantum x"
    by (simp add: j_def quantum_def two_powi_add [symmetric])
  then have "x = of_int n * of_int (2 ^ nat j) * quantum x"
    using j by (simp add: x two_powi_nat)
  then have xq: "x = of_int (n * 2 ^ nat j) * quantum x" by simp
  have "x / quantum x = of_int (n * 2 ^ nat j)"
    by (subst xq) simp
  then have "round_even (x / quantum x) = n * 2 ^ nat j"
    by (simp only: round_even_of_int)
  then have "rnd x = of_int (n * 2 ^ nat j) * quantum x"
    using False by (simp only: rnd_def if_False)
  with xq show ?thesis by simp
qed


lemma rnd_two_powi: "- 1074 \<le> k \<Longrightarrow> rnd (2 powi k) = 2 powi k"
  using rnd_fix [of "2 powi k" 1 k] by simp

lemma quantum_2_53: "2 ^ 53 * quantum x = 2 powi (max (expo x) (- 1022) + 1)"
proof -
  have "(2::rat) ^ 53 = 2 powi 53" by simp
  then have "2 ^ 53 * quantum x = 2 powi (53 + (max (expo x) (- 1022) - 52))"
    unfolding quantum_def by (simp only: two_powi_add)
  then show ?thesis by (simp add: add.commute)
qed

lemma quantum_2_52: "2 ^ 52 * quantum x = 2 powi (max (expo x) (- 1022))"
proof -
  have "(2::rat) ^ 52 = 2 powi 52" by simp
  then have "2 ^ 52 * quantum x = 2 powi (52 + (max (expo x) (- 1022) - 52))"
    unfolding quantum_def by (simp only: two_powi_add)
  then show ?thesis by simp
qed

lemma rnd_pos_upper:
  assumes "0 < x"
  shows "rnd x \<le> 2 ^ 53 * quantum x"
proof -
  have nz: "x \<noteq> 0" using assms by simp
  have "x < 2 powi (expo x + 1)" using expo_bounds(2) [OF nz] assms by simp
  also have "\<dots> \<le> 2 powi (max (expo x) (- 1022) + 1)" by (simp add: two_powi_le)
  also have "\<dots> = 2 ^ 53 * quantum x" by (simp only: quantum_2_53)
  finally have "x / quantum x \<le> of_int (2 ^ 53)"
    by (simp add: pos_divide_le_eq)
  then have "round_even (x / quantum x) \<le> round_even (of_int (2 ^ 53))"
    by (rule round_even_mono)
  then have "round_even (x / quantum x) \<le> 2 ^ 53" by (simp only: round_even_of_int)
  then have "(of_int (round_even (x / quantum x)) :: rat) \<le> of_int (2 ^ 53)"
    by (simp only: of_int_le_iff)
  then have "of_int (round_even (x / quantum x)) * quantum x \<le> of_int (2 ^ 53) * quantum x"
    by (intro mult_right_mono) (simp_all add: less_imp_le)
  then show ?thesis using nz by (simp add: rnd_def)
qed

lemma rnd_pos_lower:
  assumes "0 < x" and "- 1022 \<le> expo x"
  shows "2 ^ 52 * quantum x \<le> rnd x"
proof -
  have nz: "x \<noteq> 0" using assms by simp
  have "max (expo x) (- 1022) = expo x" using assms(2) by simp
  then have "2 ^ 52 * quantum x = 2 powi expo x"
    by (simp only: quantum_2_52)
  also have "\<dots> \<le> x" using expo_bounds(1) [OF nz] assms by simp
  finally have "of_int (2 ^ 52) \<le> x / quantum x"
    by (simp add: pos_le_divide_eq)
  then have "round_even (of_int (2 ^ 52)) \<le> round_even (x / quantum x)"
    by (rule round_even_mono)
  then have "2 ^ 52 \<le> round_even (x / quantum x)" by (simp only: round_even_of_int)
  then have "(of_int (2 ^ 52) :: rat) \<le> of_int (round_even (x / quantum x))"
    by (simp only: of_int_le_iff)
  then have "of_int (2 ^ 52) * quantum x \<le> of_int (round_even (x / quantum x)) * quantum x"
    by (intro mult_right_mono) (simp_all add: less_imp_le)
  then show ?thesis using nz by (simp add: rnd_def)
qed

lemma rnd_nonneg:
  assumes "0 \<le> x"
  shows "0 \<le> rnd x"
proof (cases "x = 0")
  case True
  then show ?thesis by simp
next
  case False
  have "0 \<le> x / quantum x" using assms by (simp add: less_imp_le)
  then have "round_even (of_int 0) \<le> round_even (x / quantum x)"
    by (intro round_even_mono) simp
  then have "0 \<le> round_even (x / quantum x)" by (simp only: round_even_of_int)
  then show ?thesis using False by (simp add: rnd_def less_imp_le)
qed

lemma expo_mono:
  assumes "x \<noteq> 0" and "\<bar>x\<bar> \<le> \<bar>y\<bar>"
  shows "expo x \<le> expo y"
proof -
  from expo_bounds(1) [OF assms(1)] assms(2) have "2 powi expo x \<le> \<bar>y\<bar>" by simp
  then show ?thesis by (rule expo_ge)
qed

lemma rnd_mono_pos:
  assumes "0 < x" and "x \<le> y"
  shows "rnd x \<le> rnd y"
proof -
  have y: "0 < y" using assms by simp
  have nz: "x \<noteq> 0" "y \<noteq> 0" using assms by simp_all
  have e: "expo x \<le> expo y" using assms by (intro expo_mono) simp_all
  show ?thesis
  proof (cases "max (expo x) (- 1022) = max (expo y) (- 1022)")
    case True
    then have q: "quantum y = quantum x" by (simp add: quantum_def)
    have "x / quantum x \<le> y / quantum x"
      using assms(2) by (simp add: divide_right_mono less_imp_le)
    then have "round_even (x / quantum x) \<le> round_even (y / quantum x)"
      by (rule round_even_mono)
    then have "(of_int (round_even (x / quantum x)) :: rat) \<le> of_int (round_even (y / quantum x))"
      by (simp only: of_int_le_iff)
    then have "of_int (round_even (x / quantum x)) * quantum x
        \<le> of_int (round_even (y / quantum x)) * quantum x"
      by (intro mult_right_mono) (simp_all add: less_imp_le)
    then show ?thesis using nz by (simp add: rnd_def q)
  next
    case False
    with e have lt: "max (expo x) (- 1022) + 1 \<le> max (expo y) (- 1022)"
      and ey: "- 1022 \<le> expo y" by (auto simp: max_def split: if_splits)
    have "rnd x \<le> 2 ^ 53 * quantum x" using assms(1) by (rule rnd_pos_upper)
    also have "\<dots> = 2 powi (max (expo x) (- 1022) + 1)" by (rule quantum_2_53)
    also have "\<dots> \<le> 2 powi (max (expo y) (- 1022))" using lt by (rule two_powi_le)
    also have "\<dots> = 2 ^ 52 * quantum y" by (simp only: quantum_2_52)
    also have "\<dots> \<le> rnd y" using y ey by (rule rnd_pos_lower)
    finally show ?thesis .
  qed
qed

lemma rnd_mono:
  assumes "x \<le> y"
  shows "rnd x \<le> rnd y"
proof -
  consider "0 < x" | "x \<le> 0" "0 \<le> y" | "y < 0" by linarith
  then show ?thesis
  proof cases
    case 1
    then show ?thesis using assms by (rule rnd_mono_pos)
  next
    case 2
    have "0 \<le> rnd (- x)" using 2(1) by (intro rnd_nonneg) simp
    then have "rnd x \<le> 0" by (simp add: rnd_minus)
    moreover have "0 \<le> rnd y" using 2(2) by (rule rnd_nonneg)
    ultimately show ?thesis by linarith
  next
    case 3
    have "rnd (- y) \<le> rnd (- x)" using 3 assms by (intro rnd_mono_pos) simp_all
    then show ?thesis by (simp add: rnd_minus)
  qed
qed

lemma rnd_idem: "rnd (rnd x) = rnd x"
proof -
  have pos: "rnd (rnd x) = rnd x" if x: "0 < x" for x
  proof -
    define k where "k = max (expo x) (- 1022) - 52"
    define n where "n = round_even (x / quantum x)"
    have q: "quantum x = 2 powi k" by (simp add: quantum_def k_def)
    have k: "- 1074 \<le> k" by (simp add: k_def)
    have r: "rnd x = of_int n * 2 powi k" using x by (simp add: rnd_def n_def q)
    have "rnd x \<le> 2 ^ 53 * 2 powi k" using rnd_pos_upper [OF x] by (simp add: q)
    then have "rat_of_int n * 2 powi k \<le> rat_of_int (2 ^ 53) * 2 powi k" by (simp add: r)
    then have "rat_of_int n \<le> rat_of_int (2 ^ 53)"
      using zero_less_power_int [of "2::rat" k] by (simp only: mult_le_cancel_right_pos zero_less_numeral)
    then have n53: "n \<le> 2 ^ 53" by (simp only: of_int_le_iff)
    have "0 \<le> rnd x" using x by (intro rnd_nonneg) simp
    then have "0 * 2 powi k \<le> rat_of_int n * 2 powi k" by (simp add: r)
    then have "(0::rat) \<le> of_int n"
      using zero_less_power_int [of "2::rat" k] by (simp only: mult_le_cancel_right_pos zero_less_numeral)
    then have n0: "0 \<le> n" by simp
    show ?thesis
    proof (cases "n = 2 ^ 53")
      case True
      then have "rnd x = 2 powi (k + 53)" by (simp add: r two_powi_add)
      moreover have "rnd (2 powi (k + 53)) = 2 powi (k + 53)"
        using k by (intro rnd_two_powi) simp
      ultimately show ?thesis by simp
    next
      case False
      with n53 n0 have "\<bar>n\<bar> < 2 ^ 53" by simp
      with r k show ?thesis by (intro rnd_fix)
    qed
  qed
  consider "0 < x" | "x = 0" | "x < 0" by linarith
  then show ?thesis
  proof cases
    case 1
    then show ?thesis by (rule pos)
  next
    case 2
    then show ?thesis by simp
  next
    case 3
    then have "rnd (rnd (- x)) = rnd (- x)" by (intro pos) simp
    then show ?thesis by (simp add: rnd_minus)
  qed
qed

lemma rnd_le:
  assumes "x \<le> c" and "rnd c = c"
  shows "rnd x \<le> c"
  using rnd_mono [OF assms(1)] assms(2) by simp

lemma rnd_ge:
  assumes "c \<le> x" and "rnd c = c"
  shows "c \<le> rnd x"
  using rnd_mono [OF assms(1)] assms(2) by simp

lemma rnd_abs_le:
  assumes "\<bar>x\<bar> \<le> c" and "rnd c = c"
  shows "\<bar>rnd x\<bar> \<le> c"
proof -
  have "rnd x \<le> c" using assms by (intro rnd_le) simp_all
  moreover have "rnd (- x) \<le> c" using assms by (intro rnd_le) simp_all
  ultimately show ?thesis by (simp add: rnd_minus abs_le_iff)
qed

lemma fl_finite:
  assumes "\<bar>x\<bar> \<le> 2 powi 1023"
  shows "fl x = Fin (rnd x)"
proof -
  have "rnd (2 powi 1023) = 2 powi 1023" by (intro rnd_two_powi) simp
  with assms have "\<bar>rnd x\<bar> \<le> 2 powi 1023" by (rule rnd_abs_le)
  also have "\<dots> < 2 powi 1024" by (intro two_powi_less) simp
  finally have "\<not> 2 powi 1024 \<le> \<bar>rnd x\<bar>" by simp
  moreover have "(2::rat) powi 1024 = 2 ^ 1024" by (rule power_int_numeral)
  ultimately show ?thesis by (simp only: fl_def Let_def if_False)
qed

section \<open>The converter on in-range inputs\<close>



lemma rnd_between:
  assumes "lo \<le> x" and "x \<le> hi" and "rnd lo = lo" and "rnd hi = hi"
  shows "lo \<le> rnd x" and "rnd x \<le> hi"
  using rnd_ge [OF assms(1,3)] rnd_le [OF assms(2,4)] by simp_all
















section \<open>The rem strings\<close>

lemma generateSpacingScale_nth_1:
  "generateSpacingScale b ! 1 = spacing_step b (Fin (1 / 2))"
  by (simp add: generateSpacingScale_def multipliers_def)

text \<open>
  Claim C5, as the specification states it: the rem string denotes exactly the
  pixel value divided by 16.  \<^verbatim>\<open>toFixed(4)\<close> keeps four decimals: for the base
  unit 1 the step \<open>0.5\<close> has 0.5 pixels, 0.5 / 16 is 0.03125, and the rem
  string is \<open>0.0313rem\<close>.
\<close>

theorem rem_rounds_counterexample:
  "SpacingStep.px (generateSpacingScale (Fin 1) ! 1) = Fin (1 / 2) \<and>
   js_div (Fin (1 / 2)) (Fin 16) = Fin (1 / 32) \<and>
   numToString (Fin (1 / 32)) = ''0.03125'' \<and>
   SpacingStep.rem (generateSpacingScale (Fin 1) ! 1) = ''0.0313rem''"
proof -
  have "js_mul (Fin 1) (Fin (1 / 2)) = Fin (1 / 2)"
    by (simp add: num_eval cong: let_weak_cong)
  moreover have "js_div (Fin (1 / 2)) (Fin 16) = Fin (1 / 32)"
    by (simp add: num_eval cong: let_weak_cong)
  moreover have "numToString (Fin (1 / 32)) = ''0.03125''"
    by (simp add: num_eval str_eval cong: let_weak_cong option.case_cong_weak)
  moreover have "strip_dot (strip_zeros (toFixed 4 (Fin (1 / 32)))) = ''0.0313''"
    by (simp add: str_eval cong: let_weak_cong)
  ultimately show ?thesis
    unfolding generateSpacingScale_nth_1
    by (simp add: spacing_step_def rem_of_def Let_def)
qed

text \<open>
  Claim C5, amended to what the code does: for every base size and ratio
  name, and for every base unit, the rem string of a step is
  \<^verbatim>\<open>(px / 16).toFixed(4)\<close>, that is px / 16 rounded to four decimals, with
  trailing zeros and then a trailing point removed, followed by \<open>rem\<close>; the
  spacing scale formats it the same way.
\<close>

theorem rem_strings:
  "map TypeScaleStep.rem (generateTypeScale pw b ratio) =
     map (\<lambda>s. strip_dot (strip_zeros (toFixed 4 (js_div (TypeScaleStep.px s) (Fin 16)))) @ ''rem'')
       (generateTypeScale pw b ratio) \<and>
   map SpacingStep.rem (generateSpacingScale u) =
     map (\<lambda>s. strip_dot (strip_zeros (toFixed 4 (js_div (SpacingStep.px s) (Fin 16)))) @ ''rem'')
       (generateSpacingScale u)"
  by (simp add: generateTypeScale_def type_step_def generateSpacingScale_def spacing_step_def
      rem_of_def Let_def)

section \<open>The base step\<close>

text \<open>
  Claim C6, as the specification states it: the pixel size of the step \<open>base\<close>
  equals the base size exactly.  The size is rounded to two decimals: for the
  base size 16.125 the step \<open>base\<close> has 16.13 pixels.
\<close>


lemma Math_pow_0 [simp]: "Math_pow pw r 0 = Fin 1"
  by (cases r) simp_all

lemma generateTypeScale_nth_2:
  "generateTypeScale pw b ratio ! 2 =
     type_step pw b (ToNumber (map_of TYPE_SCALE_RATIOS ratio))
       \<lparr>StepDef.name = ''base'', exponent = 0, weight = 400, lineHeight = ''1.5''\<rparr>"
  by (simp add: generateTypeScale_def steps_def Let_def)

lemma base_px:
  "TypeScaleStep.px (generateTypeScale pw b ratio ! 2) =
     js_div (Math_round (js_mul (js_mul b (Fin 1)) (Fin 100))) (Fin 100)"
  unfolding generateTypeScale_nth_2 by (simp add: type_step_def Let_def)

theorem base_step_rounded_counterexample:
  "(\<forall>pw.
     TypeScaleStep.name (generateTypeScale pw (Fin (129 / 8)) ''major-third'' ! 2) = ''base'' \<and>
     TypeScaleStep.px (generateTypeScale pw (Fin (129 / 8)) ''major-third'' ! 2)
       = fl (1613 / 100)) \<and>
   fl (1613 / 100) \<noteq> Fin (129 / 8)"
proof -
  have "map_of TYPE_SCALE_RATIOS ''major-third'' = Some (fl (1250 / 1000))"
    by (simp add: TYPE_SCALE_RATIOS_def)
  moreover have "fl (1250 / 1000) = Fin (5 / 4)"
    by (simp add: num_eval cong: let_weak_cong)
  moreover have "js_mul (js_mul (Fin (129 / 8)) (Fin 1)) (Fin 100) = Fin (3225 / 2)"
    by (simp add: num_eval cong: let_weak_cong)
  moreover have "fl (1613 / 100) \<noteq> Fin (129 / 8)"
    by (simp add: num_eval cong: let_weak_cong)
  ultimately show ?thesis
    unfolding generateTypeScale_nth_2
    by (simp add: type_step_def Let_def)
qed

lemma fl_medium:
  assumes "\<bar>x\<bar> \<le> 10 ^ 15"
  shows "fl x = Fin (rnd x)"
proof -
  have "(10::rat) ^ 15 \<le> 2 ^ 60" by simp
  also have "(2::rat) ^ 60 = 2 powi 60" by simp
  also have "\<dots> \<le> 2 powi 1023" by (intro two_powi_le) simp
  finally show ?thesis using assms by (intro fl_finite) linarith
qed

lemma two_decimals_round_trip:
  assumes m: "\<bar>m\<bar> \<le> 10 ^ 13"
  defines "b \<equiv> rnd (of_int m / 100)"
  shows "fl (of_int m / 100) = Fin b"
    and "js_div (Math_round (js_mul (js_mul (Fin b) (Fin 1)) (Fin 100))) (Fin 100) = Fin b"
proof -
  define u where "u = (1::rat) / 2 ^ 53"
  have u: "0 < u" "u \<le> 1 / 10 ^ 15" by (simp_all add: u_def)
  define M where "M = (of_int m :: rat)"
  have M: "\<bar>M\<bar> \<le> 10 ^ 13"
  proof -
    have "rat_of_int \<bar>m\<bar> \<le> rat_of_int (10 ^ 13)" using m by (simp only: of_int_le_iff)
    then show ?thesis by (simp add: M_def)
  qed
  have small: "\<bar>M / 100\<bar> \<le> 10 ^ 15" using M by simp
  show flb: "fl (of_int m / 100) = Fin b"
    unfolding b_def M_def [symmetric] using small by (rule fl_medium)
  have bM: "\<bar>b - M / 100\<bar> \<le> \<bar>M / 100\<bar> * u"
  proof (cases "m = 0")
    case True
    then show ?thesis by (simp add: b_def M_def)
  next
    case False
    then have "1 \<le> \<bar>m\<bar>" by simp
    then have "rat_of_int 1 \<le> rat_of_int \<bar>m\<bar>" by (simp only: of_int_le_iff)
    then have "1 \<le> \<bar>M\<bar>" by (simp add: M_def)
    then have "1 / 100 \<le> \<bar>M / 100\<bar>" by simp
    moreover have "(2::rat) powi (- 1022) \<le> 2 powi (- 7)" by (intro two_powi_le) simp
    moreover have "(2::rat) powi (- 7) \<le> 1 / 100" by (simp add: power_int_minus_divide)
    ultimately have "2 powi (- 1022) \<le> \<bar>M / 100\<bar>" by linarith
    from rnd_rel_error [OF this] show ?thesis by (simp add: b_def M_def u_def)
  qed
  have bb: "\<bar>b * 100 - M\<bar> \<le> \<bar>M\<bar> * u"
  proof -
    have "b * 100 - M = (b - M / 100) * 100" by (simp add: algebra_simps)
    then have "\<bar>b * 100 - M\<bar> = \<bar>b - M / 100\<bar> * \<bar>100\<bar>" by (simp only: abs_mult)
    then have "\<bar>b * 100 - M\<bar> = \<bar>b - M / 100\<bar> * 100" by simp
    also have "\<dots> \<le> \<bar>M / 100\<bar> * u * 100" using bM by simp
    also have "\<dots> = \<bar>M\<bar> * u" by simp
    finally show ?thesis .
  qed
  have Mu: "\<bar>M\<bar> * u \<le> 1 / 100"
  proof -
    have "\<bar>M\<bar> * u \<le> 10 ^ 13 * (1 / 10 ^ 15)"
      using M u by (intro mult_mono) simp_all
    then show ?thesis by simp
  qed
  have b100: "\<bar>b * 100\<bar> \<le> \<bar>M\<bar> + 1 / 100" using bb Mu by linarith
  define v where "v = rnd (b * 100)"
  have one: "js_mul (Fin b) (Fin 1) = Fin b"
  proof -
    have "\<bar>b\<bar> * 100 = \<bar>b * 100\<bar>" by (simp add: abs_mult)
    with b100 M have "\<bar>b\<bar> \<le> 10 ^ 15" by simp
    then have "fl b = Fin (rnd b)" by (rule fl_medium)
    then show ?thesis by (simp add: b_def rnd_idem)
  qed
  have hundred: "js_mul (Fin b) (Fin 100) = Fin v"
  proof -
    have "\<bar>b * 100\<bar> \<le> 10 ^ 15" using b100 M by simp
    then show ?thesis unfolding v_def by (simp add: fl_medium)
  qed
  have vb: "\<bar>v - b * 100\<bar> \<le> 1 / 50"
  proof (cases "2 powi (- 1022) \<le> \<bar>b * 100\<bar>")
    case True
    from rnd_rel_error [OF this] have "\<bar>v - b * 100\<bar> \<le> \<bar>b * 100\<bar> * u"
      by (simp add: v_def u_def)
    also have "\<dots> \<le> (10 ^ 13 + 1 / 100) * (1 / 10 ^ 15)"
      using b100 M u by (intro mult_mono) simp_all
    also have "\<dots> \<le> 1 / 50" by simp
    finally show ?thesis .
  next
    case False
    show ?thesis
    proof (cases "b * 100 = 0")
      case True
      then show ?thesis by (simp add: v_def)
    next
      case nz: False
      have "\<bar>v - b * 100\<bar> \<le> quantum (b * 100) / 2" unfolding v_def by (rule rnd_error)
      also have "quantum (b * 100) = 2 powi (- 1074)"
      proof -
        from False have "\<bar>b * 100\<bar> < 2 powi (- 1022)" by simp
        with nz have "expo (b * 100) < - 1022" by (rule expo_less)
        then show ?thesis by (simp add: quantum_def max_def)
      qed
      also have "(2::rat) powi (- 1074) \<le> 2 powi (- 7)" by (intro two_powi_le) simp
      also have "(2::rat) powi (- 7) \<le> 1 / 25" by (simp add: power_int_minus_divide)
      finally show ?thesis by simp
    qed
  qed
  have "\<bar>v - M\<bar> \<le> 1 / 25" using vb bb Mu by linarith
  then have "of_int m \<le> v + 1 / 2" "v + 1 / 2 < of_int m + 1"
    unfolding M_def by linarith+
  then have "\<lfloor>v + 1 / 2\<rfloor> = m" by (simp add: floor_unique)
  then have "Math_round (Fin v) = Fin (of_int m)" by simp
  then show "js_div (Math_round (js_mul (js_mul (Fin b) (Fin 1)) (Fin 100))) (Fin 100) = Fin b"
    using flb by (simp only: one hundred) simp
qed

text \<open>
  Claim C6, amended to what the code does: for every ratio name and every
  base size, the step \<open>base\<close> is the third step, has exponent 0 and the pixel
  size \<^verbatim>\<open>Math.round(baseSizePx * 1 * 100) / 100\<close>, the base size rounded to two
  decimals; it equals the base size whenever the base size is a number of at
  most two decimals, that is the binary64 value of \<open>m / 100\<close> for an integer
  \<open>m\<close> with \<open>\<bar>m\<bar> \<le> 10 ^ 13\<close>.
\<close>

theorem base_step_two_decimals:
  "TypeScaleStep.name (generateTypeScale pw b ratio ! 2) = ''base'' \<and>
   StepDef.name (steps ! 2) = ''base'' \<and> exponent (steps ! 2) = 0 \<and>
   TypeScaleStep.px (generateTypeScale pw b ratio ! 2) =
     js_div (Math_round (js_mul (js_mul b (Fin 1)) (Fin 100))) (Fin 100) \<and>
   (\<forall>m. \<bar>m\<bar> \<le> 10 ^ 13 \<longrightarrow>
      TypeScaleStep.px (generateTypeScale pw (fl (of_int m / 100)) ratio ! 2) = fl (of_int m / 100))"
proof -
  have "TypeScaleStep.name (generateTypeScale pw b ratio ! 2) = ''base''"
    unfolding generateTypeScale_nth_2 by (simp add: type_step_def Let_def)
  moreover have "StepDef.name (steps ! 2) = ''base'' \<and> exponent (steps ! 2) = 0"
    by (simp add: steps_def)
  moreover have "TypeScaleStep.px (generateTypeScale pw (fl (of_int m / 100)) ratio ! 2)
      = fl (of_int m / 100)" if "\<bar>m\<bar> \<le> 10 ^ 13" for m
    using two_decimals_round_trip [OF that] by (simp only: base_px)
  ultimately show ?thesis by (simp only: base_px) blast
qed

text \<open>Witness for C6 at the base size 16.07 (and the ratio \<open>major-third\<close>).\<close>

theorem base_step_two_decimals_witness:
  "\<bar>1607 :: int\<bar> \<le> 10 ^ 13 \<and>
   (\<forall>pw. TypeScaleStep.px (generateTypeScale pw (fl (of_int 1607 / 100)) ''major-third'' ! 2)
     = fl (of_int 1607 / 100))"
proof -
  have h: "\<bar>1607 :: int\<bar> \<le> 10 ^ 13" by simp
  have "TypeScaleStep.px (generateTypeScale pw (fl (of_int 1607 / 100)) ''major-third'' ! 2)
     = fl (of_int 1607 / 100)" for pw
  proof -
    from base_step_two_decimals [where pw = pw and ratio = "''major-third''"]
    have "\<forall>m. \<bar>m\<bar> \<le> 10 ^ 13 \<longrightarrow>
        TypeScaleStep.px (generateTypeScale pw (fl (of_int m / 100)) ''major-third'' ! 2)
          = fl (of_int m / 100)"
      by blast
    with h show ?thesis by blast
  qed
  with h show ?thesis by blast
qed

section \<open>Monotonicity of the type scale\<close>

lemma rnd_rel_bounds:
  assumes "1 / 100 \<le> x"
  shows "x - x / 10000 \<le> rnd x" and "rnd x \<le> x + x / 10000"
proof -
  have x: "0 < x" using assms by linarith
  have "(2::rat) powi (- 1022) \<le> 2 powi (- 7)" by (intro two_powi_le) simp
  also have "(2::rat) powi (- 7) \<le> 1 / 100" by (simp add: power_int_minus_divide)
  finally have "2 powi (- 1022) \<le> \<bar>x\<bar>" using assms by linarith
  from rnd_rel_error [OF this] x have "\<bar>rnd x - x\<bar> \<le> x / 2 ^ 53" by simp
  also have "x / 2 ^ 53 \<le> x / 10000" using x by (intro divide_left_mono) simp_all
  finally have "\<bar>rnd x - x\<bar> \<le> x / 10000" .
  then show "x - x / 10000 \<le> rnd x" and "rnd x \<le> x + x / 10000"
    using abs_diff_le_iff [of "rnd x" x "x / 10000"] by blast+
qed

lemma fl_large:
  assumes "\<bar>x\<bar> \<le> 2 ^ 1020"
  shows "fl x = Fin (rnd x)"
proof -
  have "(2::rat) ^ 1020 = 2 powi 1020" by simp
  also have "\<dots> \<le> 2 powi 1023" by (intro two_powi_le) simp
  finally have "\<bar>x\<bar> \<le> 2 powi 1023" using assms by (rule order_trans [rotated])
  then show ?thesis by (rule fl_finite)
qed

lemma px_bounds:
  fixes b q :: rat
  assumes b: "1 \<le> b" "b \<le> 2 ^ 1000" and q: "3 / 8 \<le> q" "q \<le> 30"
  shows "js_div (Math_round (js_mul (js_mul (Fin b) (Fin q)) (Fin 100))) (Fin 100)
      = Fin (px_val b q)"
    and "999 / 1000 * (b * q) - 1 / 100 \<le> px_val b q"
    and "px_val b q \<le> 1001 / 1000 * (b * q) + 1 / 100"
proof -
  define P where "P = px_val b q"
  define Y where "Y = b * q"
  define A where "A = rnd Y"
  define B where "B = rnd (A * 100)"
  define N where "N = \<lfloor>B + 1 / 2\<rfloor>"
  have P: "P = rnd (of_int N / 100)" by (simp add: P_def px_val_def N_def B_def A_def Y_def)
  have Y: "3 / 8 \<le> Y"
  proof -
    have "1 * (3 / 8) \<le> b * q" using b(1) q(1) by (intro mult_mono) simp_all
    then show ?thesis by (simp add: Y_def)
  qed
  define T where "T = (2::rat) ^ 1000"
  have T1: "1 \<le> T" by (simp add: T_def)
  have Yu: "Y \<le> T * 30"
    unfolding Y_def T_def using b q by (intro mult_mono) simp_all
  have big: "T * 4000 \<le> 2 ^ 1020"
  proof -
    have "T * 4000 \<le> T * 2 ^ 20" using T1 by (intro mult_left_mono) simp_all
    also have "\<dots> = 2 ^ (1000 + 20)" unfolding T_def by (simp only: power_add)
    finally show ?thesis by simp
  qed
  have "1 / 100 \<le> Y" using Y by simp
  note A = rnd_rel_bounds [OF this, folded A_def]
  have A0: "1 / 3 \<le> A" using A(1) Y by simp
  have "1 / 100 \<le> A * 100" using A0 by simp
  note B = rnd_rel_bounds [OF this, folded B_def]
  have B0: "30 \<le> B" using B(1) A0 by simp
  have N: "B - 1 / 2 \<le> of_int N" "of_int N \<le> B + 1 / 2"
    unfolding N_def using floor_correct [of "B + 1 / 2"] by simp_all
  have N0: "29 \<le> rat_of_int N" using N(1) B0 by simp
  have "1 / 100 \<le> rat_of_int N / 100" using N0 by simp
  note Pb = rnd_rel_bounds [OF this, folded P]
  have Au: "A \<le> T * 31" using A(2) Yu T1 by simp
  have Bu: "B \<le> T * 3200" using B(2) Au T1 by simp
  have Nu: "rat_of_int N \<le> T * 3201" using N(2) Bu T1 by simp
  have e1: "js_mul (Fin b) (Fin q) = Fin A"
  proof -
    have "\<bar>b * q\<bar> \<le> 2 ^ 1020" using Y Yu big T1 unfolding Y_def [symmetric] by linarith
    then show ?thesis by (simp add: fl_large A_def Y_def)
  qed
  have e2: "js_mul (Fin A) (Fin 100) = Fin B"
  proof -
    have "\<bar>A * 100\<bar> \<le> 2 ^ 1020" using A0 Au big T1 by linarith
    then show ?thesis by (simp add: fl_large B_def)
  qed
  have e3: "Math_round (Fin B) = Fin (of_int N)" by (simp add: N_def)
  have e4: "js_div (Fin (of_int N)) (Fin 100) = Fin P"
  proof -
    have "\<bar>rat_of_int N / 100\<bar> \<le> 2 ^ 1020" using N0 Nu big T1 by linarith
    then show ?thesis by (simp add: fl_large P)
  qed
  show "js_div (Math_round (js_mul (js_mul (Fin b) (Fin q)) (Fin 100))) (Fin 100)
      = Fin (px_val b q)"
    by (simp only: e1 e2 e3 e4 P_def)
  show "999 / 1000 * (b * q) - 1 / 100 \<le> px_val b q"
    using A(1) B(1) N(1) Pb(1) Y A0 B0 N0 unfolding Y_def [symmetric] P_def [symmetric] by simp
  show "px_val b q \<le> 1001 / 1000 * (b * q) + 1 / 100"
    using A(2) B(2) N(2) Pb(2) Y A0 B0 N0 unfolding Y_def [symmetric] P_def [symmetric] by simp
qed

lemma ratio_power_range:
  fixes r :: rat
  assumes r: "10669 / 10000 \<le> r" "r \<le> 16181 / 10000" and k: "- 2 \<le> k" "k \<le> 7"
  shows "381 / 1000 \<le> r powi k" and "r powi k \<le> 291 / 10"
proof -
  have r1: "1 \<le> r" and r0: "0 < r" using r by simp_all
  have "r ^ 2 \<le> (16181 / 10000) ^ 2" using r r0 by (intro power_mono) simp_all
  then have "381 / 1000 \<le> 1 / r ^ 2" using r0 by (simp add: field_simps)
  also have "1 / r ^ 2 = r powi (- 2)" by (simp add: power_int_minus_divide)
  also have "\<dots> \<le> r powi k" using k(1) r1 by (rule power_int_increasing)
  finally show "381 / 1000 \<le> r powi k" .
  have "r powi k \<le> r powi 7" using k(2) r1 by (rule power_int_increasing)
  also have "\<dots> = r ^ 7" by simp
  also have "\<dots> \<le> (16181 / 10000) ^ 7" using r r0 by (intro power_mono) simp_all
  also have "\<dots> \<le> 291 / 10" by (simp add: power_divide)
  finally show "r powi k \<le> 291 / 10" .
qed

lemma step_exponents: "e \<in> set (map exponent steps) \<longleftrightarrow> - 2 \<le> e \<and> e \<le> 7"
  by (simp add: steps_def) arith

lemma pow_bounds:
  fixes r :: rat
  assumes r: "10669 / 10000 \<le> r" "r \<le> 16181 / 10000" and acc: "pow_accurate pw (Fin r)"
    and e: "- 2 \<le> e" "e \<le> 7"
  shows "Math_pow pw (Fin r) e = Fin (pow_val pw r e)" and "3 / 8 \<le> pow_val pw r e"
    and "pow_val pw r e \<le> 30"
    and "e \<le> 6 \<Longrightarrow> 53 / 50 * pow_val pw r e \<le> pow_val pw r (e + 1)"
proof -
  have r0: "0 < r" "r \<noteq> 0" using r by simp_all
  note Z = ratio_power_range [OF r]
  from acc have all: "\<forall>e\<in>set (map exponent steps). e = 0 \<or>
      (case pw r e of Fin p \<Rightarrow> \<bar>p - r powi e\<bar> \<le> r powi e / 1000 | _ \<Rightarrow> False)"
    by (simp only: pow_accurate_def number.case list_all_iff)
  have A: "Math_pow pw (Fin r) k = Fin (pow_val pw r k) \<and>
      \<bar>pow_val pw r k - r powi k\<bar> \<le> r powi k / 1000"
    if k: "- 2 \<le> k" "k \<le> 7" for k
  proof (cases "k = 0")
    case True
    then show ?thesis by (simp add: pow_val_def)
  next
    case False
    from k have "k \<in> set (map exponent steps)" by (simp only: step_exponents)
    with all False
    have "case pw r k of Fin p \<Rightarrow> \<bar>p - r powi k\<bar> \<le> r powi k / 1000 | _ \<Rightarrow> False"
      by blast
    then obtain p where "pw r k = Fin p" and "\<bar>p - r powi k\<bar> \<le> r powi k / 1000"
      by (cases "pw r k") simp_all
    with False r0 show ?thesis by (simp add: pow_val_def)
  qed
  have P: "r powi k - r powi k / 1000 \<le> pow_val pw r k"
      "pow_val pw r k \<le> r powi k + r powi k / 1000"
    if k: "- 2 \<le> k" "k \<le> 7" for k
    using A [OF k] abs_diff_le_iff [of "pow_val pw r k" "r powi k" "r powi k / 1000"]
    by blast+
  show "Math_pow pw (Fin r) e = Fin (pow_val pw r e)" using A [OF e] by blast
  show "3 / 8 \<le> pow_val pw r e" using P(1) [OF e] Z(1) [OF e] by simp
  show "pow_val pw r e \<le> 30" using P(2) [OF e] Z(2) [OF e] by simp
  show "53 / 50 * pow_val pw r e \<le> pow_val pw r (e + 1)" if "e \<le> 6"
  proof -
    have e': "- 2 \<le> e + 1" "e + 1 \<le> 7" using e that by simp_all
    have "r powi (e + 1) = r powi e * r" using r0 by (simp add: power_int_add_1)
    moreover have "r powi e * (10669 / 10000) \<le> r powi e * r"
      using r(1) Z(1) [OF e] by (intro mult_left_mono) simp_all
    ultimately have "r powi e * (10669 / 10000) \<le> r powi (e + 1)" by simp
    with P(2) [OF e] P(1) [OF e'] Z(1) [OF e] show ?thesis by simp
  qed
qed

lemma correctly_rounded_accurate:
  fixes r :: rat
  assumes r: "10669 / 10000 \<le> r" "r \<le> 16181 / 10000"
  shows "pow_accurate correctly_rounded (Fin r)"
proof -
  have "e = 0 \<or> (case correctly_rounded r e of
        Fin p \<Rightarrow> \<bar>p - r powi e\<bar> \<le> r powi e / 1000 | _ \<Rightarrow> False)"
    if "e \<in> set (map exponent steps)" for e
  proof -
    from that have e: "- 2 \<le> e" "e \<le> 7" by (simp_all only: step_exponents)
    note Z = ratio_power_range [OF r e]
    have "\<bar>r powi e\<bar> \<le> 10 ^ 15" using Z by simp
    then have f: "fl (r powi e) = Fin (rnd (r powi e))" by (rule fl_medium)
    have "1 / 100 \<le> r powi e" using Z by simp
    from rnd_rel_bounds [OF this] Z(1)
    have "\<bar>rnd (r powi e) - r powi e\<bar> \<le> r powi e / 1000"
      by linarith
    then show ?thesis by (simp add: correctly_rounded_def f)
  qed
  then show ?thesis by (simp only: pow_accurate_def number.case list_all_iff) blast
qed

lemma TYPE_SCALE_RATIOS_values:
  "TYPE_SCALE_RATIOS =
     [(''minor-second'', Fin (4805340802404319 / 4503599627370496)),
      (''major-second'', Fin (9 / 8)),
      (''minor-third'', Fin (5404319552844595 / 4503599627370496)),
      (''major-third'', Fin (5 / 4)),
      (''perfect-fourth'', Fin (6003298303284871 / 4503599627370496)),
      (''augmented-fourth'', Fin (6368089873101881 / 4503599627370496)),
      (''perfect-fifth'', Fin (3 / 2)),
      (''golden-ratio'', Fin (7286824197085463 / 4503599627370496))]"
  by (simp add: TYPE_SCALE_RATIOS_def num_eval cong: let_weak_cong)

lemma ratio_range:
  assumes "ratio \<in> fst ` set TYPE_SCALE_RATIOS"
  shows "case map_of TYPE_SCALE_RATIOS ratio of
           Some (Fin r) \<Rightarrow> 10669 / 10000 \<le> r \<and> r \<le> 16181 / 10000
         | _ \<Rightarrow> False"
proof -
  from assms have "ratio = ''minor-second'' \<or> ratio = ''major-second'' \<or>
      ratio = ''minor-third'' \<or> ratio = ''major-third'' \<or> ratio = ''perfect-fourth'' \<or>
      ratio = ''augmented-fourth'' \<or> ratio = ''perfect-fifth'' \<or> ratio = ''golden-ratio''"
    by (simp add: TYPE_SCALE_RATIOS_def)
  then show ?thesis
    unfolding TYPE_SCALE_RATIOS_values by (elim disjE) simp_all
qed

lemma ratio_cases:
  assumes "ratio \<in> fst ` set TYPE_SCALE_RATIOS"
  obtains r where "map_of TYPE_SCALE_RATIOS ratio = Some (Fin r)"
    and "10669 / 10000 \<le> r" and "r \<le> 16181 / 10000"
  using ratio_range [OF assms] by (auto split: option.splits number.splits)

lemma type_step_px:
  "TypeScaleStep.px (type_step pw b r step) =
     js_div (Math_round (js_mul (js_mul b (Math_pow pw r (exponent step))) (Fin 100))) (Fin 100)"
  by (simp add: type_step_def Let_def)

lemma generateTypeScale_names:
  "map TypeScaleStep.name (generateTypeScale pw b ratio) =
     [''xs'', ''sm'', ''base'', ''lg'', ''xl'', ''2xl'', ''3xl'', ''4xl'', ''5xl'', ''display'']"
  by (simp add: generateTypeScale_def steps_def type_step_def Let_def)

lemma generateTypeScale_weights:
  "map suggestedWeight (generateTypeScale pw b ratio) =
     [400, 400, 400, 400, 500, 600, 600, 700, 700, 800]"
  by (simp add: generateTypeScale_def steps_def type_step_def Let_def)

text \<open>
  Claim C10, amended. For every ratio name of the fixed set, every host power function
  that is accurate at that ratio (for each nonzero exponent of the step table it returns
  a finite number within the relative error \<open>1 / 1000\<close> of the exact power), and every
  finite base size \<open>b\<close> with \<open>1 \<le> b \<le> 2 ^ 1000\<close>, the ten steps come in the order
  xs, sm, base, lg, xl, 2xl, 3xl, 4xl, 5xl, display, their pixel sizes are finite numbers
  that strictly increase along that order, and the suggested weights along that order
  are nondecreasing.
\<close>

theorem type_scale_increasing:
  assumes "ratio \<in> fst ` set TYPE_SCALE_RATIOS"
    and "pow_accurate pw (ToNumber (map_of TYPE_SCALE_RATIOS ratio))"
    and "1 \<le> b" and "b \<le> 2 ^ 1000"
  shows "map TypeScaleStep.name (generateTypeScale pw (Fin b) ratio) =
       [''xs'', ''sm'', ''base'', ''lg'', ''xl'', ''2xl'', ''3xl'', ''4xl'', ''5xl'', ''display''] \<and>
     (\<exists>ps. map TypeScaleStep.px (generateTypeScale pw (Fin b) ratio) = map Fin ps \<and>
           sorted_wrt (<) ps) \<and>
     sorted (map suggestedWeight (generateTypeScale pw (Fin b) ratio))"
proof -
  from assms(1) obtain r where r: "map_of TYPE_SCALE_RATIOS ratio = Some (Fin r)"
    and r1: "10669 / 10000 \<le> r" and r2: "r \<le> 16181 / 10000"
    by (rule ratio_cases)
  from assms(2) have acc: "pow_accurate pw (Fin r)" by (simp add: r)
  define P where "P = (\<lambda>e. px_val b (pow_val pw r e))"
  note pb = pow_bounds [OF r1 r2 acc]
  have px: "js_div (Math_round (js_mul (js_mul (Fin b) (Math_pow pw (Fin r) e)) (Fin 100)))
      (Fin 100) = Fin (P e)" if e: "- 2 \<le> e" "e \<le> 7" for e
    using px_bounds(1) [OF assms(3,4) pb(2) [OF e] pb(3) [OF e]]
    by (simp only: pb(1) [OF e] P_def)
  have less: "P e < P (e + 1)" if e: "- 2 \<le> e" "e \<le> 6" for e
  proof -
    have e7: "e \<le> 7" and e': "- 2 \<le> e + 1" "e + 1 \<le> 7" using e by simp_all
    note lo = pb(2) [OF e(1) e7]
    have "1 * (3 / 8) \<le> b * pow_val pw r e" using assms(3) lo by (intro mult_mono) simp_all
    then have Y: "3 / 8 \<le> b * pow_val pw r e" by simp
    have "b * (53 / 50 * pow_val pw r e) \<le> b * pow_val pw r (e + 1)"
      using pb(4) [OF e(1) e7 e(2)] assms(3) by (intro mult_left_mono) simp_all
    then have Y': "53 / 50 * (b * pow_val pw r e) \<le> b * pow_val pw r (e + 1)" by simp
    from px_bounds(3) [OF assms(3,4) lo pb(3) [OF e(1) e7]]
    have u: "P e \<le> 1001 / 1000 * (b * pow_val pw r e) + 1 / 100" by (simp only: P_def)
    from px_bounds(2) [OF assms(3,4) pb(2) [OF e'] pb(3) [OF e']]
    have l: "999 / 1000 * (b * pow_val pw r (e + 1)) - 1 / 100 \<le> P (e + 1)"
      by (simp only: P_def)
    from Y Y' u l show ?thesis by linarith
  qed
  have "map TypeScaleStep.px (generateTypeScale pw (Fin b) ratio) =
      map Fin [P (- 2), P (- 1), P 0, P 1, P 2, P 3, P 4, P 5, P 6, P 7]"
    by (simp add: generateTypeScale_def steps_def r type_step_px px Let_def
        del: Math_pow.simps Math_pow_0)
  moreover have "sorted_wrt (<) [P (- 2), P (- 1), P 0, P 1, P 2, P 3, P 4, P 5, P 6, P 7]"
    using less [of "- 2"] less [of "- 1"] less [of 0] less [of 1] less [of 2] less [of 3]
      less [of 4] less [of 5] less [of 6]
    by simp
  ultimately have "\<exists>ps. map TypeScaleStep.px (generateTypeScale pw (Fin b) ratio) = map Fin ps \<and>
      sorted_wrt (<) ps"
    by blast
  then show ?thesis
    by (simp add: generateTypeScale_names generateTypeScale_weights)
qed

text \<open>
  Witness for C10 at the base size 16, the ratio \<open>perfect-fourth\<close> and the correctly
  rounded power as the host's function.
\<close>

theorem type_scale_increasing_witness:
  "''perfect-fourth'' \<in> fst ` set TYPE_SCALE_RATIOS \<and>
   pow_accurate correctly_rounded (ToNumber (map_of TYPE_SCALE_RATIOS ''perfect-fourth'')) \<and>
   (1::rat) \<le> 16 \<and> (16::rat) \<le> 2 ^ 1000 \<and>
   (\<exists>ps. map TypeScaleStep.px (generateTypeScale correctly_rounded (Fin 16) ''perfect-fourth'')
           = map Fin ps \<and> sorted_wrt (<) ps) \<and>
   sorted (map suggestedWeight (generateTypeScale correctly_rounded (Fin 16) ''perfect-fourth''))"
proof -
  have h: "''perfect-fourth'' \<in> fst ` set TYPE_SCALE_RATIOS" "(1::rat) \<le> 16"
      "(16::rat) \<le> 2 ^ 1000"
    by (simp_all add: TYPE_SCALE_RATIOS_def)
  from h(1) obtain r where r: "map_of TYPE_SCALE_RATIOS ''perfect-fourth'' = Some (Fin r)"
    and r1: "10669 / 10000 \<le> r" and r2: "r \<le> 16181 / 10000"
    by (rule ratio_cases)
  from correctly_rounded_accurate [OF r1 r2]
  have a: "pow_accurate correctly_rounded (ToNumber (map_of TYPE_SCALE_RATIOS ''perfect-fourth''))"
    by (simp add: r)
  from type_scale_increasing [OF h(1) a h(2,3)] h a show ?thesis by blast
qed

subsection \<open>Overflow for very large bases\<close>

lemma fl_overflow:
  assumes "2 powi 1024 \<le> x"
  shows "fl x = PInf"
proof -
  have "rnd (2 powi 1024) = 2 powi 1024" by (intro rnd_two_powi) simp
  with assms have "2 powi 1024 \<le> rnd x" by (rule rnd_ge)
  moreover have "0 < (2::rat) powi 1024" by simp
  ultimately have "2 powi 1024 \<le> \<bar>rnd x\<bar>" and "0 < x" using assms by linarith+
  moreover have "(2::rat) powi 1024 = 2 ^ 1024" by (rule power_int_numeral)
  ultimately show ?thesis by (simp only: fl_def Let_def if_True)
qed

lemma overflow_base_px:
  "js_div (Math_round (js_mul (js_mul (Fin (2 powi 1023)) (Fin 1)) (Fin 100))) (Fin 100) = PInf"
proof -
  have "\<bar>(2::rat) powi 1023 * 1\<bar> \<le> 2 powi 1023" by simp
  then have "fl (2 powi 1023 * 1) = Fin (rnd (2 powi 1023 * 1))" by (rule fl_finite)
  moreover have "rnd (2 powi 1023 * 1) = 2 powi 1023"
    unfolding mult_1_right by (intro rnd_two_powi) simp
  ultimately have e1: "js_mul (Fin (2 powi 1023)) (Fin 1) = Fin (2 powi 1023)"
    by (simp only: js_mul.simps)
  have "(2::rat) powi 1024 \<le> 2 powi 1023 * 100" by simp
  then have "fl (2 powi 1023 * 100) = PInf" by (rule fl_overflow)
  then have e2: "js_mul (Fin (2 powi 1023)) (Fin 100) = PInf" by (simp only: js_mul.simps)
  show ?thesis unfolding e1 e2 by (simp add: inf_of_sign_def)
qed

lemma js_lt_PInf: "\<not> js_lt PInf y"
  by (cases y) simp_all

lemma generateTypeScale_nth_3:
  "TypeScaleStep.name (generateTypeScale pw b ratio ! 3) = ''lg''"
  by (simp add: generateTypeScale_def steps_def type_step_def Let_def)

text \<open>
  Claim C10 as stated (every base size at least 1) fails for very large bases: at the base
  \<open>2 ^ 1023\<close> (about \<open>9e307\<close>) the product \<open>px * 100\<close> of the step \<open>base\<close>
  overflows, so its pixel size is \<open>Infinity\<close>, and the pixel size of the next step
  \<open>lg\<close> is not greater than \<open>Infinity\<close>, whatever the host's power function returns.
\<close>

theorem type_scale_overflow_counterexample:
  "''perfect-fifth'' \<in> fst ` set TYPE_SCALE_RATIOS \<and> (1::rat) \<le> 2 powi 1023 \<and>
   (\<forall>pw.
      TypeScaleStep.name (generateTypeScale pw (Fin (2 powi 1023)) ''perfect-fifth'' ! 2) = ''base'' \<and>
      TypeScaleStep.name (generateTypeScale pw (Fin (2 powi 1023)) ''perfect-fifth'' ! 3) = ''lg'' \<and>
      TypeScaleStep.px (generateTypeScale pw (Fin (2 powi 1023)) ''perfect-fifth'' ! 2) = PInf \<and>
      \<not> js_lt (TypeScaleStep.px (generateTypeScale pw (Fin (2 powi 1023)) ''perfect-fifth'' ! 2))
          (TypeScaleStep.px (generateTypeScale pw (Fin (2 powi 1023)) ''perfect-fifth'' ! 3)))"
proof -
  have "(1::rat) \<le> 2 powi 1023" by simp
  moreover have "''perfect-fifth'' \<in> fst ` set TYPE_SCALE_RATIOS"
    by (simp add: TYPE_SCALE_RATIOS_def)
  moreover have "TypeScaleStep.name (generateTypeScale pw b ratio ! 2) = ''base''" for pw b ratio
    unfolding generateTypeScale_nth_2 by (simp add: type_step_def Let_def)
  ultimately show ?thesis
    unfolding base_px overflow_base_px generateTypeScale_nth_3
    using js_lt_PInf by blast
qed

subsection \<open>The pixel size and the host's power function\<close>

text \<open>
  The pixel size follows the host's power function.  For the ratio \<open>golden-ratio\<close>
  (the binary64 value of 1.618) and the base size 2062963, the step \<open>4xl\<close> has
  22876207.39 pixels when the fifth power is the correctly rounded
  11.089005180897571, and 22876207.4 pixels when the host returns the neighbouring
  binary64 value 11.089005180897573.
\<close>

lemma host_power_reaches_px:
  fixes pw :: "rat \<Rightarrow> int \<Rightarrow> number"
  defines "r \<equiv> 7286824197085463 / 4503599627370496"
  defines "s \<equiv> \<lparr>StepDef.name = ''4xl'', exponent = 5, weight = 700, lineHeight = ''1.2''\<rparr>"
  shows "map_of TYPE_SCALE_RATIOS ''golden-ratio'' = Some (Fin r)"
    and "correctly_rounded r 5 = Fin (6242554950074975 / 562949953421312)"
    and "TypeScaleStep.px (type_step correctly_rounded (Fin 2062963) (Fin r) s)
           = Fin (1535196290571305 / 67108864)"
    and "fl (2287620739 / 100) = Fin (1535196290571305 / 67108864)"
    and "pw r 5 = Fin (195079842189843 / 17592186044416) \<Longrightarrow>
         TypeScaleStep.px (type_step pw (Fin 2062963) (Fin r) s)
           = Fin (3070392582484787 / 134217728)"
    and "fl (228762074 / 10) = Fin (3070392582484787 / 134217728)"
proof -
  show "map_of TYPE_SCALE_RATIOS ''golden-ratio'' = Some (Fin r)"
    by (simp add: TYPE_SCALE_RATIOS_values r_def)
  show c: "correctly_rounded r 5 = Fin (6242554950074975 / 562949953421312)"
    by (simp add: correctly_rounded_def r_def power_divide num_eval cong: let_weak_cong)
  have m1: "js_mul (js_mul (Fin 2062963) (Fin (6242554950074975 / 562949953421312))) (Fin 100)
      = Fin (4797488409083903 / 2097152)"
    by (simp add: num_eval cong: let_weak_cong)
  have d1: "js_div (Math_round (Fin (4797488409083903 / 2097152))) (Fin 100)
      = Fin (1535196290571305 / 67108864)"
    by (simp add: num_eval cong: let_weak_cong)
  have r0: "r \<noteq> 0" by (simp add: r_def)
  show "TypeScaleStep.px (type_step correctly_rounded (Fin 2062963) (Fin r) s)
           = Fin (1535196290571305 / 67108864)"
    unfolding type_step_px using r0 by (simp add: s_def c m1 d1 del: js_mul.simps js_div.simps Math_round.simps)
  show "fl (2287620739 / 100) = Fin (1535196290571305 / 67108864)"
    by (simp add: num_eval cong: let_weak_cong)
  have m2: "js_mul (js_mul (Fin 2062963) (Fin (195079842189843 / 17592186044416))) (Fin 100)
      = Fin (4575241479 / 2)"
    by (simp add: num_eval cong: let_weak_cong)
  have d2: "js_div (Math_round (Fin (4575241479 / 2))) (Fin 100)
      = Fin (3070392582484787 / 134217728)"
    by (simp add: num_eval cong: let_weak_cong)
  show "TypeScaleStep.px (type_step pw (Fin 2062963) (Fin r) s)
           = Fin (3070392582484787 / 134217728)"
    if "pw r 5 = Fin (195079842189843 / 17592186044416)"
    unfolding type_step_px using r0 that by (simp add: s_def m2 d2 del: js_mul.simps js_div.simps Math_round.simps)
  show "fl (228762074 / 10) = Fin (3070392582484787 / 134217728)"
    by (simp add: num_eval cong: let_weak_cong)
qed

end
